theory Spec2Isabelle
  imports
    Complex_Main
    "HOL-Library.Sublist"
    "HOL-Library.Char_ord"
    "HOL-Library.List_Lexorder"
    "HOL-Library.AList"
    "HOL-Library.Multiset"
begin

section \<open>The host language: strings, numbers, JSON values\<close>

text \<open>
  The backend is JavaScript on Express. The routes of \<^verbatim>\<open>backend/src/routes/items.js\<close> and
  \<^verbatim>\<open>backend/src/routes/stats.js\<close> and the middleware \<^verbatim>\<open>errorHandler\<close> are embedded below,
  function by function. What the code takes from the language (string methods, number
  arithmetic, \<^verbatim>\<open>parseInt\<close>, \<^verbatim>\<open>slice\<close>, \<^verbatim>\<open>sort\<close>) is modelled here first, after ECMAScript.

  A string is a list of code units. The eight-bit \<^typ>\<open>char\<close> stands for the code units
  U+0000 to U+00FF; on these the methods below are the ones of ECMAScript.
\<close>

subsection \<open>Strings\<close>

definition isWhiteSpace :: "char \<Rightarrow> bool" where
  \<comment> \<open>WhiteSpace and LineTerminator below U+0100: TAB, LF, VT, FF, CR, SP, NBSP.\<close>
  "isWhiteSpace c = (of_char c \<in> {9, 10, 11, 12, 13, 32, 160 :: nat})"

definition trimStart :: "string \<Rightarrow> string" where
  "trimStart s = dropWhile isWhiteSpace s"

definition trim :: "string \<Rightarrow> string" where
  "trim s = rev (dropWhile isWhiteSpace (rev (dropWhile isWhiteSpace s)))"

definition toLowerChar :: "char \<Rightarrow> char" where
  \<comment> \<open>A to Z, and the Latin-1 capitals U+00C0 to U+00DE without the multiplication sign.\<close>
  "toLowerChar c =
     (let n = (of_char c :: nat)
      in if (65 \<le> n \<and> n \<le> 90) \<or> (192 \<le> n \<and> n \<le> 222 \<and> n \<noteq> 215)
         then char_of (n + 32) else c)"

definition toLowerCase :: "string \<Rightarrow> string" where
  "toLowerCase s = map toLowerChar s"

fun str_includes :: "string \<Rightarrow> string \<Rightarrow> bool" where
  \<comment> \<open>\<^verbatim>\<open>s.includes(t)\<close>: does \<open>t\<close> start at some position of \<open>s\<close>.\<close>
  "str_includes [] t = (t = [])"
| "str_includes (c # s) t = (prefix t (c # s) \<or> str_includes s t)"

definition truthy_string :: "string \<Rightarrow> bool" where
  \<comment> \<open>A string in a condition is true unless it is empty.\<close>
  "truthy_string s = (s \<noteq> [])"

subsection \<open>Numbers\<close>

text \<open>
  A number is a double. The finite ones are written as the rationals they denote;
  \<open>Fin 0\<close> is the positive zero. \<^verbatim>\<open>parseInt\<close> rounds the integer it reads to the nearest
  double and overflows to an infinity, as the language does. The operators below compute
  exactly, without rounding: on the page arithmetic this changes no response, since an
  array has fewer than \<open>2^32\<close> elements and \<^verbatim>\<open>slice\<close> clamps its bounds to the length.
\<close>

datatype jsnum = NaN | NegInf | NegZero | Fin rat | PosInf

fun isNegative :: "jsnum \<Rightarrow> bool" where
  "isNegative NegInf = True"
| "isNegative NegZero = True"
| "isNegative (Fin r) = (r < 0)"
| "isNegative _ = False"

fun isZero :: "jsnum \<Rightarrow> bool" where
  "isZero NegZero = True"
| "isZero (Fin r) = (r = 0)"
| "isZero _ = False"

fun isInf :: "jsnum \<Rightarrow> bool" where
  "isInf NegInf = True"
| "isInf PosInf = True"
| "isInf _ = False"

fun finite_value :: "jsnum \<Rightarrow> rat" where
  "finite_value (Fin r) = r"
| "finite_value _ = 0"

definition signedZero :: "bool \<Rightarrow> jsnum" where
  "signedZero neg = (if neg then NegZero else Fin 0)"

definition signedInf :: "bool \<Rightarrow> jsnum" where
  "signedInf neg = (if neg then NegInf else PosInf)"

definition js_add :: "jsnum \<Rightarrow> jsnum \<Rightarrow> jsnum" where
  "js_add a b =
     (if a = NaN \<or> b = NaN then NaN
      else if isInf a \<and> isInf b then (if a = b then a else NaN)
      else if isInf a then a
      else if isInf b then b
      else if a = NegZero then b
      else if b = NegZero then a
      else Fin (finite_value a + finite_value b))"

definition js_sub :: "jsnum \<Rightarrow> jsnum \<Rightarrow> jsnum" where
  "js_sub a b =
     js_add a (case b of NaN \<Rightarrow> NaN | NegInf \<Rightarrow> PosInf | PosInf \<Rightarrow> NegInf
               | NegZero \<Rightarrow> Fin 0 | Fin r \<Rightarrow> (if r = 0 then NegZero else Fin (- r)))"

definition js_mul :: "jsnum \<Rightarrow> jsnum \<Rightarrow> jsnum" where
  "js_mul a b =
     (if a = NaN \<or> b = NaN then NaN
      else if (isInf a \<and> isZero b) \<or> (isZero a \<and> isInf b) then NaN
      else if isInf a \<or> isInf b then signedInf (isNegative a \<noteq> isNegative b)
      else if isZero a \<or> isZero b then signedZero (isNegative a \<noteq> isNegative b)
      else Fin (finite_value a * finite_value b))"

definition js_div :: "jsnum \<Rightarrow> jsnum \<Rightarrow> jsnum" where
  "js_div a b =
     (if a = NaN \<or> b = NaN then NaN
      else if (isInf a \<and> isInf b) \<or> (isZero a \<and> isZero b) then NaN
      else if isInf a \<or> isZero b then signedInf (isNegative a \<noteq> isNegative b)
      else if isZero a \<or> isInf b then signedZero (isNegative a \<noteq> isNegative b)
      else Fin (finite_value a / finite_value b))"

fun js_ceil :: "jsnum \<Rightarrow> jsnum" where
  \<comment> \<open>\<^verbatim>\<open>Math.ceil\<close>; a value in \<open>(-1, 0)\<close> goes to the negative zero.\<close>
  "js_ceil (Fin r) = (if r < 0 \<and> \<lceil>r\<rceil> = 0 then NegZero else Fin (of_int \<lceil>r\<rceil>))"
| "js_ceil a = a"

fun js_lt :: "jsnum \<Rightarrow> jsnum \<Rightarrow> bool" where
  \<comment> \<open>\<^verbatim>\<open>a < b\<close> on numbers; \<^verbatim>\<open>a > b\<close> is \<open>js_lt b a\<close>. Any comparison with NaN is false.\<close>
  "js_lt NaN _ = False"
| "js_lt _ NaN = False"
| "js_lt PosInf _ = False"
| "js_lt _ NegInf = False"
| "js_lt NegInf _ = True"
| "js_lt _ PosInf = True"
| "js_lt a b = (finite_value a < finite_value b)"

subsection \<open>parseInt\<close>

definition digitValue :: "char \<Rightarrow> nat option" where
  "digitValue c =
     (let n = (of_char c :: nat)
      in if 48 \<le> n \<and> n \<le> 57 then Some (n - 48)
         else if 97 \<le> n \<and> n \<le> 102 then Some (n - 87)
         else if 65 \<le> n \<and> n \<le> 70 then Some (n - 55)
         else None)"

definition isRadixDigit :: "nat \<Rightarrow> char \<Rightarrow> bool" where
  "isRadixDigit R c = (case digitValue c of None \<Rightarrow> False | Some d \<Rightarrow> d < R)"

definition digitsValue :: "nat \<Rightarrow> string \<Rightarrow> int" where
  "digitsValue R Z = foldl (\<lambda>acc c. acc * int R + int (the (digitValue c))) 0 Z"

function bitLength :: "int \<Rightarrow> nat" where
  \<comment> \<open>The number of binary digits of a positive integer.\<close>
  "bitLength n = (if n \<le> 0 then 0 else Suc (bitLength (n div 2)))"
  by pat_completeness auto
termination
  by (relation "measure nat") auto

declare bitLength.simps [simp del]

definition toDouble :: "int \<Rightarrow> jsnum" where
  \<comment> \<open>The Number value of a positive integer: itself below \<open>2^53\<close>; above, the nearest number
      with 53 significant bits, a tie going to the even one; Infinity when that is \<open>2^1024\<close>
      or more.\<close>
  "toDouble n =
     (if n < 2 ^ 53 then Fin (of_int n)
      else let e = bitLength n - 53;
               q = n div 2 ^ e;
               r = n mod 2 ^ e;
               half = 2 ^ (e - 1);
               q' = (if half < r \<or> (r = half \<and> odd q) then q + 1 else q);
               v = q' * 2 ^ e
           in if 2 ^ 1024 \<le> v then PosInf else Fin (of_int v))"

fun js_negate :: "jsnum \<Rightarrow> jsnum" where
  "js_negate NaN = NaN"
| "js_negate NegInf = PosInf"
| "js_negate PosInf = NegInf"
| "js_negate NegZero = Fin 0"
| "js_negate (Fin r) = (if r = 0 then NegZero else Fin (- r))"

definition parseInt :: "string \<Rightarrow> jsnum" where
  \<comment> \<open>\<^verbatim>\<open>parseInt(string)\<close> with no radix: leading white space, a sign, a \<^verbatim>\<open>0x\<close> prefix,
      then the longest run of digits; no digit gives NaN; \<^verbatim>\<open>-0\<close> gives the negative zero.
      The integer read is rounded to a double. (Beyond 20 significant digits the language
      lets an engine round less exactly; the model rounds the integer itself, as V8 does.)\<close>
  "parseInt inputString =
     (let S = trimStart inputString;
          negative = (S \<noteq> [] \<and> hd S = CHR ''-'');
          S1 = (if S \<noteq> [] \<and> (hd S = CHR ''+'' \<or> hd S = CHR ''-'') then tl S else S);
          hex = (take 2 S1 = ''0x'' \<or> take 2 S1 = ''0X'');
          R = (if hex then 16 else 10);
          S2 = (if hex then drop 2 S1 else S1);
          Z = takeWhile (isRadixDigit R) S2;
          mathInt = digitsValue R Z
      in if Z = [] then NaN
         else if mathInt = 0 then signedZero negative
         else if negative then js_negate (toDouble mathInt) else toDouble mathInt)"

subsection \<open>Array.prototype.slice\<close>

definition js_truncate :: "rat \<Rightarrow> int" where
  "js_truncate r = (if r < 0 then \<lceil>r\<rceil> else \<lfloor>r\<rfloor>)"

definition sliceIndex :: "nat \<Rightarrow> jsnum \<Rightarrow> nat" where
  \<comment> \<open>ToIntegerOrInfinity of the argument, then: a negative index counts from the end,
      and the result is clamped to \<open>0 .. len\<close>.\<close>
  "sliceIndex len x =
     (case x of
        NaN \<Rightarrow> 0
      | NegZero \<Rightarrow> 0
      | NegInf \<Rightarrow> 0
      | PosInf \<Rightarrow> len
      | Fin r \<Rightarrow> (let i = js_truncate r
                  in if i < 0 then nat (max (int len + i) 0) else nat (min i (int len))))"

definition slice :: "'a list \<Rightarrow> jsnum \<Rightarrow> jsnum \<Rightarrow> 'a list" where
  "slice xs start stop =
     (let len = length xs; k = sliceIndex len start; final = sliceIndex len stop
      in take (final - k) (drop k xs))"

subsection \<open>JSON values and objects\<close>

text \<open>
  \<^verbatim>\<open>JSON.parse\<close> yields null, booleans, numbers, strings, arrays and objects. An object is
  the list of its own properties in insertion order, with distinct keys; reading a property
  that is absent gives \<^verbatim>\<open>undefined\<close>, written \<open>None\<close>. The collection is an array of objects.
  Properties inherited from \<^verbatim>\<open>Object.prototype\<close> are not modelled, so a \<^verbatim>\<open>sortBy\<close> that
  names one is outside the model.
\<close>

datatype json = JNull | JBool bool | JNum rat | JStr string
  | JArr "json list" | JObj "(string \<times> json) list"

type_synonym item = "(string \<times> json) list"

definition getProp :: "item \<Rightarrow> string \<Rightarrow> json option" where
  \<comment> \<open>\<^verbatim>\<open>item[key]\<close>\<close>
  "getProp item key = map_of item key"

definition set_prop :: "item \<Rightarrow> string \<Rightarrow> json \<Rightarrow> item" where
  \<comment> \<open>\<^verbatim>\<open>item[key] = v\<close>: in place when the key exists, else added last.\<close>
  "set_prop item key v = AList.update key v item"

subsection \<open>Errors\<close>

datatype js_error =
    Error string "nat option"  \<comment> \<open>\<^verbatim>\<open>new Error(message)\<close>, with the \<^verbatim>\<open>status\<close> set on it, if any\<close>
  | TypeError                  \<comment> \<open>thrown by the engine: a method read on a value that has none\<close>
  | SyntaxError                \<comment> \<open>thrown by \<^verbatim>\<open>JSON.parse\<close>\<close>
  | SystemError                \<comment> \<open>a failing call of \<^verbatim>\<open>fs\<close>\<close>

fun err_status :: "js_error \<Rightarrow> nat option" where
  "err_status (Error m s) = s"
| "err_status _ = None"

definition andThen :: "js_error + 'a \<Rightarrow> ('a \<Rightarrow> js_error + 'b) \<Rightarrow> js_error + 'b" where
  \<comment> \<open>Sequencing: a throw skips the rest.\<close>
  "andThen r f = (case r of Inl e \<Rightarrow> Inl e | Inr x \<Rightarrow> f x)"

subsection \<open>What the engine supplies\<close>

text \<open>
  Some conversions of the language round to doubles or print them, and the texts of the
  engine's own errors differ between engines. They are parameters of the model: every
  theorem below holds for all of them.
\<close>

record platform =
  parseFloat :: "string \<Rightarrow> jsnum"          \<comment> \<open>\<^verbatim>\<open>parseFloat(s)\<close>\<close>
  stringToNumber :: "string \<Rightarrow> jsnum"      \<comment> \<open>ToNumber of a string\<close>
  numberToString :: "rat \<Rightarrow> string"        \<comment> \<open>ToString of a finite number\<close>
  objectToString :: "json \<Rightarrow> string"       \<comment> \<open>\<^verbatim>\<open>toString()\<close> of an array or an object\<close>
  engineMessage :: "js_error \<Rightarrow> string"    \<comment> \<open>\<^verbatim>\<open>message\<close> of an error the engine made\<close>
  stackTrace :: "js_error \<Rightarrow> string"       \<comment> \<open>\<^verbatim>\<open>stack\<close> of an error\<close>

definition err_message :: "platform \<Rightarrow> js_error \<Rightarrow> string" where
  "err_message P e = (case e of Error m s \<Rightarrow> m | _ \<Rightarrow> engineMessage P e)"

fun isStringLike :: "json option \<Rightarrow> bool" where
  \<comment> \<open>Is ToPrimitive of the value a string: strings, and arrays and objects through
      their \<^verbatim>\<open>toString\<close>.\<close>
  "isStringLike (Some (JStr s)) = True"
| "isStringLike (Some (JArr xs)) = True"
| "isStringLike (Some (JObj kvs)) = True"
| "isStringLike _ = False"

fun primitiveString :: "platform \<Rightarrow> json option \<Rightarrow> string" where
  "primitiveString P (Some (JStr s)) = s"
| "primitiveString P (Some v) = objectToString P v"
| "primitiveString P None = []"

fun toNumber :: "platform \<Rightarrow> json option \<Rightarrow> jsnum" where
  "toNumber P None = NaN"
| "toNumber P (Some JNull) = Fin 0"
| "toNumber P (Some (JBool b)) = Fin (if b then 1 else 0)"
| "toNumber P (Some (JNum r)) = Fin r"
| "toNumber P (Some v) = stringToNumber P (primitiveString P (Some v))"

definition js_less :: "platform \<Rightarrow> json option \<Rightarrow> json option \<Rightarrow> bool" where
  \<comment> \<open>\<^verbatim>\<open>a < b\<close> on values: two strings by code units, anything else as numbers.
      \<^verbatim>\<open>a > b\<close> is \<open>js_less P b a\<close>.\<close>
  "js_less P a b =
     (if isStringLike a \<and> isStringLike b then primitiveString P a < primitiveString P b
      else js_lt (toNumber P a) (toNumber P b))"

definition call_toLowerCase :: "json option \<Rightarrow> js_error + string" where
  \<comment> \<open>\<^verbatim>\<open>v.toLowerCase()\<close>: only a string has the method.\<close>
  "call_toLowerCase v = (case v of Some (JStr s) \<Rightarrow> Inr (toLowerCase s) | _ \<Rightarrow> Inl TypeError)"

fun filter_js :: "('a \<Rightarrow> js_error + bool) \<Rightarrow> 'a list \<Rightarrow> js_error + 'a list" where
  \<comment> \<open>\<^verbatim>\<open>xs.filter(p)\<close>: the callback runs on each element in order; its first throw ends the call.\<close>
  "filter_js p [] = Inr []"
| "filter_js p (x # xs) =
     andThen (p x) (\<lambda>keep. andThen (filter_js p xs) (\<lambda>ys. Inr (if keep then x # ys else ys)))"


subsection \<open>Array.prototype.sort with a comparator\<close>

text \<open>
  The language fixes the result of \<^verbatim>\<open>sort\<close> only for a consistent comparator: the stable
  arrangement in its order. Which pairs the comparator is called on, and the result for an
  inconsistent or throwing comparator, are left to the engine. The model is an insertion
  sort: each element in turn is placed into the sorted prefix, after the elements it does
  not precede, with the new element as the comparator's first argument.
\<close>

fun insertSorted :: "('a \<Rightarrow> 'a \<Rightarrow> js_error + int) \<Rightarrow> 'a \<Rightarrow> 'a list \<Rightarrow> js_error + 'a list" where
  "insertSorted cmp x [] = Inr [x]"
| "insertSorted cmp x (y # ys) =
     andThen (cmp x y) (\<lambda>c.
       if c < 0 then Inr (x # y # ys)
       else andThen (insertSorted cmp x ys) (\<lambda>zs. Inr (y # zs)))"

fun sortFrom :: "('a \<Rightarrow> 'a \<Rightarrow> js_error + int) \<Rightarrow> 'a list \<Rightarrow> 'a list \<Rightarrow> js_error + 'a list" where
  "sortFrom cmp placed [] = Inr placed"
| "sortFrom cmp placed (x # xs) =
     andThen (insertSorted cmp x placed) (\<lambda>placed'. sortFrom cmp placed' xs)"

definition sort_js :: "('a \<Rightarrow> 'a \<Rightarrow> js_error + int) \<Rightarrow> 'a list \<Rightarrow> js_error + 'a list" where
  "sort_js cmp xs = sortFrom cmp [] xs"

section \<open>The items routes\<close>

subsection \<open>Requests, responses and the data file\<close>

text \<open>
  A query parameter is absent or a string (the arrays and objects that a repeated or
  bracketed parameter gives are not modelled). The destructuring defaults apply to an absent
  parameter only. The defaults of \<^verbatim>\<open>limit\<close> and \<^verbatim>\<open>page\<close> are the numbers 10 and 1; they only
  go through \<^verbatim>\<open>parseInt\<close>, which reads them as the strings written here.
\<close>

record query =
  q_param :: "string option"
  category_param :: "string option"
  minPrice_param :: "string option"
  maxPrice_param :: "string option"
  limit_param :: "string option"
  page_param :: "string option"
  sortBy_param :: "string option"
  sortOrder_param :: "string option"

definition orDefault :: "string option \<Rightarrow> string \<Rightarrow> string" where
  "orDefault v d = (case v of None \<Rightarrow> d | Some s \<Rightarrow> s)"

record pagination =
  currentPage :: jsnum
  totalPages :: jsnum
  totalItems :: nat
  itemsPerPage :: jsnum
  hasNextPage :: bool
  hasPrevPage :: bool

record listing =
  data :: "item list"
  pagination :: pagination
  filters :: item

record stats =
  total :: nat
  averagePrice :: jsnum

datatype payload =
    Listing listing
  | Object item
  | Categories "json option list"
  | Stats stats

record response =
  status :: nat
  body :: payload

definition json_response :: "payload \<Rightarrow> response" where
  \<comment> \<open>\<^verbatim>\<open>res.json(x)\<close>\<close>
  "json_response x = \<lparr>status = 200, body = x\<rparr>"

datatype data_file = Unreadable | Malformed | Content "item list"

fun readData :: "data_file \<Rightarrow> js_error + item list" where
  \<comment> \<open>\<^verbatim>\<open>JSON.parse(await fs.readFile(DATA_PATH, 'utf8'))\<close>\<close>
  "readData Unreadable = Inl SystemError"
| "readData Malformed = Inl SyntaxError"
| "readData (Content items) = Inr items"

subsection \<open>The error middleware\<close>

definition notFound :: "string \<Rightarrow> js_error" where
  "notFound originalUrl = Error (''Route '' @ originalUrl @ '' not found'') (Some 404)"

definition errorHandler :: "platform \<Rightarrow> bool \<Rightarrow> js_error \<Rightarrow> response" where
  \<comment> \<open>\<open>development\<close> is \<^verbatim>\<open>process.env.NODE_ENV === 'development'\<close>.\<close>
  "errorHandler P development err =
     (let statusCode = (case err_status err of None \<Rightarrow> 500 | Some s \<Rightarrow> if s = 0 then 500 else s)
      in \<lparr>status = statusCode,
          body = Object ([(''message'', JStr (err_message P err))] @
                         (if development then [(''stack'', JStr (stackTrace P err))] else []))\<rparr>)"

definition respond :: "platform \<Rightarrow> bool \<Rightarrow> js_error + response \<Rightarrow> response" where
  \<comment> \<open>A route's \<^verbatim>\<open>try { ... } catch (err) { next(err) }\<close> under \<^verbatim>\<open>app.use(errorHandler)\<close>.\<close>
  "respond P development r = (case r of Inl err \<Rightarrow> errorHandler P development err | Inr res \<Rightarrow> res)"

subsection \<open>Filters\<close>

definition matchesText :: "string \<Rightarrow> item \<Rightarrow> js_error + bool" where
  \<comment> \<open>\<^verbatim>\<open>item.name.toLowerCase().includes(searchTerm) || item.category.toLowerCase().includes(searchTerm)\<close>\<close>
  "matchesText searchTerm item =
     andThen (call_toLowerCase (getProp item ''name'')) (\<lambda>name.
       if str_includes name searchTerm then Inr True
       else andThen (call_toLowerCase (getProp item ''category'')) (\<lambda>category.
         Inr (str_includes category searchTerm)))"

definition matchesCategory :: "string \<Rightarrow> item \<Rightarrow> js_error + bool" where
  \<comment> \<open>\<^verbatim>\<open>item.category.toLowerCase() === category.toLowerCase().trim()\<close>\<close>
  "matchesCategory category item =
     andThen (call_toLowerCase (getProp item ''category'')) (\<lambda>c.
       Inr (c = trim (toLowerCase category)))"

definition textFilter :: "string \<Rightarrow> item list \<Rightarrow> js_error + item list" where
  \<comment> \<open>Lines 70 to 76 of the list route.\<close>
  "textFilter q items =
     (if truthy_string (trim q) then filter_js (matchesText (trim (toLowerCase q))) items
      else Inr items)"

definition categoryFilter :: "string \<Rightarrow> item list \<Rightarrow> js_error + item list" where
  \<comment> \<open>Lines 79 to 83 of the list route.\<close>
  "categoryFilter category items =
     (if truthy_string (trim category) then filter_js (matchesCategory category) items
      else Inr items)"

definition searchPredicate ::
  "platform \<Rightarrow> string \<Rightarrow> string \<Rightarrow> string \<Rightarrow> string \<Rightarrow> item \<Rightarrow> js_error + bool" where
  \<comment> \<open>The callback of \<^verbatim>\<open>searchItems\<close>.\<close>
  "searchPredicate P q category minPrice maxPrice item =
     andThen (if truthy_string q \<and> truthy_string (trim q)
              then matchesText (trim (toLowerCase q)) item else Inr True) (\<lambda>matchesText.
       if \<not> matchesText then Inr False
       else andThen (if truthy_string category \<and> truthy_string (trim category)
                     then matchesCategory category item else Inr True) (\<lambda>sameCategory.
         if \<not> sameCategory then Inr False
         else if truthy_string minPrice \<and>
                 js_lt (toNumber P (getProp item ''price'')) (parseFloat P minPrice) then Inr False
         else if truthy_string maxPrice \<and>
                 js_lt (parseFloat P maxPrice) (toNumber P (getProp item ''price'')) then Inr False
         else Inr True))"

definition searchItems ::
  "platform \<Rightarrow> item list \<Rightarrow> string \<Rightarrow> string \<Rightarrow> string \<Rightarrow> string \<Rightarrow> js_error + item list" where
  "searchItems P items q category minPrice maxPrice =
     filter_js (searchPredicate P q category minPrice maxPrice) items"


subsection \<open>Sorting and pagination\<close>

definition compareItems :: "platform \<Rightarrow> string \<Rightarrow> string \<Rightarrow> item \<Rightarrow> item \<Rightarrow> js_error + int" where
  \<comment> \<open>The comparator handed to \<^verbatim>\<open>filteredResults.sort\<close> in both routes.\<close>
  "compareItems P sortBy sortOrder a b =
     andThen (case getProp a sortBy of
                Some (JStr s) \<Rightarrow>
                  andThen (call_toLowerCase (getProp b sortBy)) (\<lambda>t.
                    Inr (Some (JStr (toLowerCase s)), Some (JStr t)))
              | aVal \<Rightarrow> Inr (aVal, getProp b sortBy)) (\<lambda>(aVal, bVal).
       if sortOrder = ''desc''
       then Inr (if js_less P aVal bVal then 1 else if js_less P bVal aVal then - 1 else 0)
       else Inr (if js_less P bVal aVal then 1 else if js_less P aVal bVal then - 1 else 0))"

definition paginated :: "item list \<Rightarrow> nat \<Rightarrow> jsnum \<Rightarrow> jsnum \<Rightarrow> item \<Rightarrow> listing" where
  \<comment> \<open>The object both routes send: \<open>sortedResults\<close> is the sorted filtered array, \<open>n\<close> the
      \<^verbatim>\<open>totalItems\<close> taken before sorting.\<close>
  "paginated sortedResults n limitNum pageNum echoed =
     (let offset = js_mul (js_sub pageNum (Fin 1)) limitNum;
          totalPages = js_ceil (js_div (Fin (of_nat n)) limitNum);
          paginatedResults = slice sortedResults offset (js_add offset limitNum)
      in \<lparr>data = paginatedResults,
          pagination = \<lparr>currentPage = pageNum,
                        totalPages = totalPages,
                        totalItems = n,
                        itemsPerPage = limitNum,
                        hasNextPage = js_lt pageNum totalPages,
                        hasPrevPage = js_lt (Fin 1) pageNum\<rparr>,
          filters = echoed\<rparr>)"

subsection \<open>GET /api/items\<close>

definition listItems :: "platform \<Rightarrow> item list \<Rightarrow> query \<Rightarrow> js_error + listing" where
  "listItems P items qry =
     (let limit = orDefault (limit_param qry) ''10'';
          page = orDefault (page_param qry) ''1'';
          q = orDefault (q_param qry) [];
          sortBy = orDefault (sortBy_param qry) ''id'';
          sortOrder = orDefault (sortOrder_param qry) ''asc'';
          category = orDefault (category_param qry) [];
          limitNum = parseInt limit;
          pageNum = parseInt page
      in andThen (textFilter q items) (\<lambda>filteredResults.
         andThen (categoryFilter category filteredResults) (\<lambda>filteredResults.
         andThen (sort_js (compareItems P sortBy sortOrder) filteredResults) (\<lambda>sortedResults.
           Inr (paginated sortedResults (length filteredResults) limitNum pageNum
                  [(''search'', JStr q), (''category'', JStr category),
                   (''sortBy'', JStr sortBy), (''sortOrder'', JStr sortOrder)])))))"

definition getItems :: "platform \<Rightarrow> data_file \<Rightarrow> query \<Rightarrow> js_error + response" where
  "getItems P f qry =
     andThen (readData f) (\<lambda>items.
     andThen (listItems P items qry) (\<lambda>page. Inr (json_response (Listing page))))"

subsection \<open>GET /api/items/search\<close>

definition advancedSearch :: "platform \<Rightarrow> item list \<Rightarrow> query \<Rightarrow> js_error + listing" where
  "advancedSearch P items qry =
     (let q = orDefault (q_param qry) [];
          category = orDefault (category_param qry) [];
          minPrice = orDefault (minPrice_param qry) [];
          maxPrice = orDefault (maxPrice_param qry) [];
          limit = orDefault (limit_param qry) ''10'';
          page = orDefault (page_param qry) ''1'';
          sortBy = orDefault (sortBy_param qry) ''id'';
          sortOrder = orDefault (sortOrder_param qry) ''asc'';
          limitNum = parseInt limit;
          pageNum = parseInt page
      in andThen (searchItems P items q category minPrice maxPrice) (\<lambda>filteredResults.
         andThen (sort_js (compareItems P sortBy sortOrder) filteredResults) (\<lambda>sortedResults.
           Inr (paginated sortedResults (length filteredResults) limitNum pageNum
                  [(''search'', JStr q), (''category'', JStr category),
                   (''minPrice'', JStr minPrice), (''maxPrice'', JStr maxPrice),
                   (''sortBy'', JStr sortBy), (''sortOrder'', JStr sortOrder)]))))"

definition getSearch :: "platform \<Rightarrow> data_file \<Rightarrow> query \<Rightarrow> js_error + response" where
  "getSearch P f qry =
     andThen (readData f) (\<lambda>items.
     andThen (advancedSearch P items qry) (\<lambda>page. Inr (json_response (Listing page))))"

subsection \<open>GET /api/items/categories\<close>

fun sameValueZero :: "json option \<Rightarrow> json option \<Rightarrow> bool" where
  \<comment> \<open>The identity a \<^verbatim>\<open>Set\<close> uses. Primitives are the same when equal; the arrays and
      objects of two parsed items are two objects, never the same one.\<close>
  "sameValueZero None None = True"
| "sameValueZero (Some JNull) (Some JNull) = True"
| "sameValueZero (Some (JBool a)) (Some (JBool b)) = (a = b)"
| "sameValueZero (Some (JNum a)) (Some (JNum b)) = (a = b)"
| "sameValueZero (Some (JStr a)) (Some (JStr b)) = (a = b)"
| "sameValueZero _ _ = False"

definition setAdd :: "json option list \<Rightarrow> json option \<Rightarrow> json option list" where
  "setAdd members v = (if list_ex (\<lambda>m. sameValueZero m v) members then members else members @ [v])"

definition newSet :: "json option list \<Rightarrow> json option list" where
  \<comment> \<open>\<^verbatim>\<open>[...new Set(values)]\<close>: the members in the order of their first insertion.\<close>
  "newSet values = foldl setAdd [] values"

fun toStringValue :: "platform \<Rightarrow> json option \<Rightarrow> string" where
  "toStringValue P None = ''undefined''"
| "toStringValue P (Some JNull) = ''null''"
| "toStringValue P (Some (JBool b)) = (if b then ''true'' else ''false'')"
| "toStringValue P (Some (JNum r)) = numberToString P r"
| "toStringValue P (Some (JStr s)) = s"
| "toStringValue P (Some v) = objectToString P v"

definition defaultCompare :: "platform \<Rightarrow> json option \<Rightarrow> json option \<Rightarrow> js_error + int" where
  "defaultCompare P x y =
     (let xString = toStringValue P x; yString = toStringValue P y
      in Inr (if xString < yString then - 1 else if yString < xString then 1 else 0))"

definition defaultSort :: "platform \<Rightarrow> json option list \<Rightarrow> js_error + json option list" where
  \<comment> \<open>\<^verbatim>\<open>values.sort()\<close>: by the strings of the values, \<^verbatim>\<open>undefined\<close> last.\<close>
  "defaultSort P values =
     andThen (sort_js (defaultCompare P) (filter (\<lambda>v. v \<noteq> None) values)) (\<lambda>sortedResults.
       Inr (sortedResults @ filter (\<lambda>v. v = None) values))"

definition getCategories :: "platform \<Rightarrow> data_file \<Rightarrow> js_error + json option list" where
  "getCategories P f =
     andThen (readData f) (\<lambda>items.
       let categories = newSet (map (\<lambda>item. getProp item ''category'') items)
       in defaultSort P categories)"

definition getCategoriesRoute :: "platform \<Rightarrow> data_file \<Rightarrow> js_error + response" where
  "getCategoriesRoute P f =
     andThen (getCategories P f) (\<lambda>categories. Inr (json_response (Categories categories)))"

subsection \<open>GET /api/items/:id\<close>

definition strictEquals :: "json option \<Rightarrow> jsnum \<Rightarrow> bool" where
  \<comment> \<open>\<^verbatim>\<open>v === n\<close> for a number \<open>n\<close>: \<open>v\<close> is a number of the same value. NaN equals nothing.\<close>
  "strictEquals v n =
     (case v of Some (JNum r) \<Rightarrow> n = Fin r \<or> (r = 0 \<and> n = NegZero) | _ \<Rightarrow> False)"

definition getItemById :: "data_file \<Rightarrow> string \<Rightarrow> js_error + response" where
  "getItemById f idParam =
     andThen (readData f) (\<lambda>items.
       case find (\<lambda>i. strictEquals (getProp i ''id'') (parseInt idParam)) items of
         None \<Rightarrow> Inl (Error ''Item not found'' (Some 404))
       | Some item \<Rightarrow> Inr (json_response (Object item)))"

subsection \<open>POST /api/items\<close>

text \<open>
  The body is a JSON object, as \<^verbatim>\<open>express.json()\<close> parses it. The file is written as
  \<^verbatim>\<open>JSON.stringify\<close> prints the array and read back by \<^verbatim>\<open>JSON.parse\<close>; on JSON values these
  are inverse, so the file holds the array itself. \<open>now\<close> is \<^verbatim>\<open>Date.now()\<close>. A write that
  fails is taken to leave the file as it was.
\<close>

record disk =
  contents :: data_file
  writable :: bool

definition postItem :: "int \<Rightarrow> item \<Rightarrow> disk \<Rightarrow> (js_error + response) \<times> disk" where
  "postItem now reqBody d =
     (case readData (contents d) of
        Inl err \<Rightarrow> (Inl err, d)
      | Inr items \<Rightarrow>
          (let item = set_prop reqBody ''id'' (JNum (of_int now));
               items' = items @ [item]
           in if writable d
              then (Inr \<lparr>status = 201, body = Object item\<rparr>, d\<lparr>contents := Content items'\<rparr>)
              else (Inl SystemError, d)))"


section \<open>The stats route\<close>

subsection \<open>The addition operator\<close>






subsection \<open>The cache and the route\<close>












section \<open>Reference data and the specification's predicates\<close>

text \<open>
  \<open>mockItems\<close> is the collection of the test suite. \<open>examplePlatform\<close> fixes the engine's
  conversions for the evaluations below: on decimal integers, the only numerals that occur
  there, \<^verbatim>\<open>parseFloat\<close> and ToNumber agree with \<^verbatim>\<open>parseInt\<close>. Its printing functions and
  error texts are placeholders: no evaluation below reaches them.
\<close>

definition examplePlatform :: platform where
  "examplePlatform =
     \<lparr>parseFloat = parseInt, stringToNumber = parseInt,
      numberToString = (\<lambda>r. ''0''), objectToString = (\<lambda>v. ''[object Object]''),
      engineMessage = (\<lambda>e. []), stackTrace = (\<lambda>e. [])\<rparr>"

definition mockItems :: "item list" where
  "mockItems =
     [[(''id'', JNum 1), (''name'', JStr ''Laptop Pro''), (''category'', JStr ''Electronics''), (''price'', JNum 2499)],
      [(''id'', JNum 2), (''name'', JStr ''Headphones''), (''category'', JStr ''Electronics''), (''price'', JNum 399)],
      [(''id'', JNum 3), (''name'', JStr ''Monitor''), (''category'', JStr ''Electronics''), (''price'', JNum 999)]]"

text \<open>
  The text filter as the specification words it: an item is kept when its name or its
  category, case-folded, contains the case-folded trimmed \<open>q\<close> as a substring.
\<close>

definition spec_foldedContains :: "json option \<Rightarrow> string \<Rightarrow> bool" where
  "spec_foldedContains v t = (case v of Some (JStr s) \<Rightarrow> sublist t (toLowerCase s) | _ \<Rightarrow> False)"

definition spec_textMatch :: "string \<Rightarrow> item \<Rightarrow> bool" where
  "spec_textMatch q item =
     (spec_foldedContains (getProp item ''name'') (toLowerCase (trim q)) \<or>
      spec_foldedContains (getProp item ''category'') (toLowerCase (trim q)))"

definition isString :: "json option \<Rightarrow> bool" where
  "isString v = (case v of Some (JStr s) \<Rightarrow> True | _ \<Rightarrow> False)"

definition nullItem :: item where
  \<comment> \<open>What the test of a POST with null values stores.\<close>
  "nullItem = [(''name'', JNull), (''category'', JNull), (''price'', JNull), (''id'', JNum 1700000000000)]"

definition emptyQuery :: query where
  "emptyQuery =
     \<lparr>q_param = None, category_param = None, minPrice_param = None, maxPrice_param = None,
      limit_param = None, page_param = None, sortBy_param = None, sortOrder_param = None\<rparr>"

definition testErrorHandler :: "platform \<Rightarrow> js_error \<Rightarrow> response" where
  \<comment> \<open>The handler that \<^verbatim>\<open>tests/items.test.js\<close> installs in place of the middleware:
      \<^verbatim>\<open>res.status(err.status || 500).json({ error: err.message || 'Internal Server Error' })\<close>\<close>
  "testErrorHandler P err =
     \<lparr>status = (case err_status err of None \<Rightarrow> 500 | Some s \<Rightarrow> if s = 0 then 500 else s),
      body = Object [(''error'', JStr (if truthy_string (err_message P err) then err_message P err
                                       else ''Internal Server Error''))]\<rparr>"

text \<open>
  Names for what the two routes compute on the way: the filtered collection of a request,
  its comparator, and its parsed \<^verbatim>\<open>limit\<close> and \<^verbatim>\<open>page\<close>.
\<close>

definition listFiltered :: "item list \<Rightarrow> query \<Rightarrow> js_error + item list" where
  "listFiltered items qry =
     andThen (textFilter (orDefault (q_param qry) []) items)
       (categoryFilter (orDefault (category_param qry) []))"

definition searchFiltered :: "platform \<Rightarrow> item list \<Rightarrow> query \<Rightarrow> js_error + item list" where
  "searchFiltered P items qry =
     searchItems P items (orDefault (q_param qry) []) (orDefault (category_param qry) [])
       (orDefault (minPrice_param qry) []) (orDefault (maxPrice_param qry) [])"

definition requestComparator :: "platform \<Rightarrow> query \<Rightarrow> item \<Rightarrow> item \<Rightarrow> js_error + int" where
  "requestComparator P qry =
     compareItems P (orDefault (sortBy_param qry) ''id'') (orDefault (sortOrder_param qry) ''asc'')"

definition limitNumOf :: "query \<Rightarrow> jsnum" where
  "limitNumOf qry = parseInt (orDefault (limit_param qry) ''10'')"

definition pageNumOf :: "query \<Rightarrow> jsnum" where
  "pageNumOf qry = parseInt (orDefault (page_param qry) ''1'')"

definition secondPage :: listing where
  "secondPage =
     \<lparr>data = [mockItems ! 2],
      pagination = \<lparr>currentPage = Fin 2, totalPages = Fin 2, totalItems = 3,
                    itemsPerPage = Fin 2, hasNextPage = False, hasPrevPage = True\<rparr>,
      filters = [(''search'', JStr []), (''category'', JStr []),
                 (''sortBy'', JStr ''id''), (''sortOrder'', JStr ''asc'')]\<rparr>"

text \<open>
  The pagination metadata as the specification words it, for \<open>n\<close> filtered items, a limit
  \<open>l\<close> and the parsed page.
\<close>

definition spec_pagination :: "pagination \<Rightarrow> nat \<Rightarrow> int \<Rightarrow> jsnum \<Rightarrow> bool" where
  "spec_pagination pgn n l pageNum =
     (totalItems pgn = n \<and>
      totalPages pgn = Fin (of_int \<lceil>of_nat n / (of_int l :: rat)\<rceil>) \<and>
      hasNextPage pgn = js_lt pageNum (totalPages pgn) \<and>
      hasPrevPage pgn = js_lt (Fin 1) pageNum \<and>
      (\<forall>p. pageNum = Fin (of_int p) \<longrightarrow>
         hasNextPage pgn = (p < \<lceil>of_nat n / (of_int l :: rat)\<rceil>) \<and>
         hasPrevPage pgn = (1 < p)))"

definition secondPageQuery :: query where
  "secondPageQuery = emptyQuery\<lparr>limit_param := Some ''2'', page_param := Some ''2''\<rparr>"




text \<open>
  The sort keys the specification speaks of: the price of an item and its case-folded name,
  for the items that have a number as price and a string as name.
\<close>

definition priceOf :: "item \<Rightarrow> rat" where
  "priceOf i = (case getProp i ''price'' of Some (JNum r) \<Rightarrow> r | _ \<Rightarrow> 0)"

definition foldedNameOf :: "item \<Rightarrow> string" where
  "foldedNameOf i = (case getProp i ''name'' of Some (JStr s) \<Rightarrow> toLowerCase s | _ \<Rightarrow> [])"

definition hasNumericPrice :: "item \<Rightarrow> bool" where
  "hasNumericPrice i = (case getProp i ''price'' of Some (JNum r) \<Rightarrow> True | _ \<Rightarrow> False)"

definition hasStringName :: "item \<Rightarrow> bool" where
  "hasStringName i = isString (getProp i ''name'')"

definition spec_sortedPage :: "query \<Rightarrow> listing \<Rightarrow> bool" where
  "spec_sortedPage qry pg =
     ((sortBy_param qry = Some ''price'' \<and> sortOrder_param qry = Some ''desc'' \<longrightarrow>
         sorted_wrt (\<ge>) (map priceOf (data pg))) \<and>
      (sortBy_param qry = Some ''name'' \<and> sortOrder_param qry \<in> {None, Some ''asc''} \<longrightarrow>
         sorted (map foldedNameOf (data pg))))"




text \<open>
  \<open>newItem\<close> is the body the creation tests send; \<open>created\<close> is the item that the route
  stores and returns for a body.
\<close>

definition newItem :: item where
  "newItem = [(''name'', JStr ''New Item''), (''category'', JStr ''Test''), (''price'', JNum 199)]"

definition created :: "int \<Rightarrow> item \<Rightarrow> item" where
  "created now reqBody = set_prop reqBody ''id'' (JNum (of_int now))"






text \<open>
  A decimal numeral too large for a double, \<open>10^309\<close>, as a limit and as a page, with
  what the list route sends for the test collection.
\<close>

definition hugeNumeral :: string where
  "hugeNumeral = CHR ''1'' # replicate 309 (CHR ''0'')"

definition hugeLimitQuery :: query where
  "hugeLimitQuery = emptyQuery\<lparr>limit_param := Some hugeNumeral\<rparr>"

definition hugeLimitPage :: listing where
  "hugeLimitPage =
     \<lparr>data = [],
      pagination = \<lparr>currentPage = Fin 1, totalPages = Fin 0, totalItems = 3,
                    itemsPerPage = PosInf, hasNextPage = False, hasPrevPage = False\<rparr>,
      filters = [(''search'', JStr []), (''category'', JStr []),
                 (''sortBy'', JStr ''id''), (''sortOrder'', JStr ''asc'')]\<rparr>"



section \<open>Properties of the host-language model\<close>

lemma andThen_simps [simp]:
  "andThen (Inl e) f = Inl e"
  "andThen (Inr x) f = f x"
  by (simp_all add: andThen_def)

lemma str_includes_sublist: "str_includes s t \<longleftrightarrow> sublist t s"
  by (induction s) (auto simp: sublist_Cons_right)

lemma of_char_toLowerChar_ws: "isWhiteSpace (toLowerChar c) = isWhiteSpace c"
  by (auto simp: isWhiteSpace_def toLowerChar_def Let_def)

lemma dropWhile_ws_lower: "dropWhile isWhiteSpace (toLowerCase s) = toLowerCase (dropWhile isWhiteSpace s)"
  by (induction s) (auto simp: toLowerCase_def of_char_toLowerChar_ws)

lemma rev_toLowerCase: "rev (toLowerCase s) = toLowerCase (rev s)"
  by (simp add: toLowerCase_def rev_map)

lemma trim_toLowerCase: "trim (toLowerCase s) = toLowerCase (trim s)"
  by (simp add: trim_def dropWhile_ws_lower rev_toLowerCase)

lemmas parseInt_eval =
  parseInt_def trimStart_def isWhiteSpace_def isRadixDigit_def digitValue_def digitsValue_def
  signedZero_def toDouble_def Let_def

lemma parseInt_999: "parseInt ''999'' = Fin 999"
  by (simp add: parseInt_eval)

text \<open>
  The bit length brackets a positive integer between two powers of two, so every integer
  from \<open>2^1024\<close> on becomes Infinity; \<open>10^309\<close> is one.
\<close>

lemma bitLength_bounds:
  "0 < n \<Longrightarrow> 2 ^ (bitLength n - 1) \<le> n \<and> n < 2 ^ bitLength n"
proof (induction n rule: bitLength.induct)
  case (1 n)
  from \<open>0 < n\<close> have b: "bitLength n = Suc (bitLength (n div 2))"
    by (subst bitLength.simps) simp
  show ?case
  proof (cases "n div 2 \<le> 0")
    case True
    with \<open>0 < n\<close> have "n = 1" by linarith
    then show ?thesis by (simp add: bitLength.simps)
  next
    case False
    then have pos: "0 < n div 2" by simp
    with 1 have ih: "2 ^ (bitLength (n div 2) - 1) \<le> n div 2 \<and> n div 2 < 2 ^ bitLength (n div 2)"
      by simp
    from pos have "bitLength (n div 2) = Suc (bitLength (n div 2 div 2))"
      by (subst bitLength.simps) simp
    then have s: "bitLength (n div 2) = Suc (bitLength (n div 2) - 1)" by simp
    have "(2::int) ^ bitLength (n div 2) = 2 * 2 ^ (bitLength (n div 2) - 1)"
      by (subst s) simp
    with ih have lo: "2 ^ bitLength (n div 2) \<le> n" by linarith
    from ih have "n < 2 * 2 ^ bitLength (n div 2)" by linarith
    with lo show ?thesis by (simp add: b)
  qed
qed

lemma toDouble_overflow:
  assumes "2 ^ 1024 \<le> n"
  shows "toDouble n = PosInf"
proof -
  define b where "b = bitLength n"
  define e where "e = b - 53"
  have "(0::int) < 2 ^ 1024" by simp
  with assms have pos: "0 < n" by linarith
  from bitLength_bounds[OF pos] have lo: "2 ^ (b - 1) \<le> n" and hi: "n < 2 ^ b"
    by (simp_all add: b_def)
  from assms hi have "(2::int) ^ 1024 < 2 ^ b" by linarith
  then have big: "1024 < b" by (rule power_less_imp_less_exp[rotated]) simp
  have "(2::int) ^ 53 \<le> 2 ^ 1024" by (rule power_increasing) simp_all
  with assms have large: "\<not> n < 2 ^ 53" by linarith
  from big have split: "b - 1 = 52 + e" by (simp add: e_def)
  have pw: "(2::int) ^ (b - 1) = 2 ^ 52 * 2 ^ e" by (simp only: split power_add)
  have "(2 ^ 52 * 2 ^ e) div 2 ^ e \<le> n div 2 ^ e"
    using lo unfolding pw by (rule zdiv_mono1) simp
  then have q: "2 ^ 52 \<le> n div 2 ^ e" by simp
  have mono: "x * 2 ^ e \<le> y * 2 ^ e" if "x \<le> y" for x y :: int
    using that by (simp add: mult_right_mono)
  from big have "(2::int) ^ 1024 \<le> 2 ^ (b - 1)" by (intro power_increasing) simp_all
  also have "\<dots> = 2 ^ 52 * 2 ^ e" by (rule pw)
  also have "\<dots> \<le> (n div 2 ^ e) * 2 ^ e" using q by (rule mono)
  finally have v0: "2 ^ 1024 \<le> (n div 2 ^ e) * 2 ^ e" .
  have "(n div 2 ^ e) * 2 ^ e \<le> (n div 2 ^ e + 1) * 2 ^ e" by (rule mono) simp
  with v0 have v1: "2 ^ 1024 \<le> (n div 2 ^ e + 1) * 2 ^ e" by linarith
  from large v0 v1 show ?thesis
    unfolding toDouble_def Let_def b_def[symmetric] e_def[symmetric]
    by (simp only: if_False if_True simp_thms split: if_splits)
qed

lemma foldl_zeros:
  "foldl (\<lambda>acc c. acc * 10 + int (the (digitValue c))) a (replicate k (CHR ''0'')) = a * 10 ^ k"
  by (induction k arbitrary: a) (simp_all add: digitValue_def)

lemma digitsValue_one_zeros: "digitsValue 10 (CHR ''1'' # replicate k (CHR ''0'')) = 10 ^ k"
proof -
  have "digitValue (CHR ''1'') = Some 1" by (simp add: digitValue_def)
  then show ?thesis by (simp add: digitsValue_def foldl_zeros)
qed

lemma takeWhile_zeros:
  "takeWhile (isRadixDigit 10) (CHR ''1'' # replicate k (CHR ''0'')) = CHR ''1'' # replicate k (CHR ''0'')"
  unfolding takeWhile_eq_all_conv by (simp add: isRadixDigit_def digitValue_def)

lemma parseInt_one_zeros:
  "parseInt (CHR ''1'' # replicate k (CHR ''0'')) = toDouble (10 ^ k)"
proof -
  define s where "s = CHR ''1'' # replicate k (CHR ''0'')"
  have t: "trimStart s = s"
    by (simp add: s_def trimStart_def isWhiteSpace_def)
  have h: "s \<noteq> []" "hd s \<noteq> CHR ''+''" "hd s \<noteq> CHR ''-''" "take 2 s \<noteq> ''0x''" "take 2 s \<noteq> ''0X''"
    by (simp_all add: s_def take_Cons')
  have z: "takeWhile (isRadixDigit 10) s = s"
    unfolding s_def by (rule takeWhile_zeros)
  have d: "digitsValue 10 s = 10 ^ k"
    unfolding s_def by (rule digitsValue_one_zeros)
  have "parseInt s = toDouble (10 ^ k)"
    by (simp add: parseInt_def Let_def t h z d)
  then show ?thesis by (simp only: s_def)
qed

lemma huge_power: "(2::int) ^ 1024 \<le> 10 ^ 309"
  by simp

lemma parseInt_hugeNumeral: "parseInt hugeNumeral = PosInf"
  unfolding hugeNumeral_def parseInt_one_zeros by (rule toDouble_overflow[OF huge_power])

section \<open>The text filter\<close>

lemma call_toLowerCase_Inr: "call_toLowerCase v = Inr t \<longleftrightarrow> (\<exists>s. v = Some (JStr s) \<and> t = toLowerCase s)"
  by (auto simp: call_toLowerCase_def split: option.splits json.splits)

lemma call_toLowerCase_Inl: "call_toLowerCase v = Inl e \<longleftrightarrow> (\<not> isString v \<and> e = TypeError)"
  by (auto simp: call_toLowerCase_def isString_def split: option.splits json.splits)

lemma matchesText_unfold:
  "matchesText t i =
     (case getProp i ''name'' of
        Some (JStr s) \<Rightarrow>
          if sublist t (toLowerCase s) then Inr True
          else (case getProp i ''category'' of
                  Some (JStr c) \<Rightarrow> Inr (sublist t (toLowerCase c))
                | _ \<Rightarrow> Inl TypeError)
      | _ \<Rightarrow> Inl TypeError)"
  by (simp add: matchesText_def call_toLowerCase_def str_includes_sublist
      split: option.split json.split)

lemma matchesText_Inr:
  "matchesText (trim (toLowerCase q)) i = Inr b \<Longrightarrow> b = spec_textMatch q i"
  unfolding matchesText_unfold spec_textMatch_def spec_foldedContains_def trim_toLowerCase
  by (simp split: option.splits json.splits if_splits)

lemma matchesText_strings:
  "isString (getProp i ''name'') \<Longrightarrow> isString (getProp i ''category'') \<Longrightarrow>
   \<exists>b. matchesText t i = Inr b"
  unfolding matchesText_unfold isString_def
  by (auto split: option.splits json.splits)

lemma matchesText_Inl: "matchesText t i = Inl e \<Longrightarrow> e = TypeError"
  unfolding matchesText_unfold
  by (simp split: option.splits json.splits if_splits)

lemma filter_js_Inr:
  "filter_js p xs = Inr ys \<Longrightarrow> ys = filter (\<lambda>x. p x = Inr True) xs \<and> (\<forall>x\<in>set xs. \<exists>b. p x = Inr b)"
proof (induction xs arbitrary: ys)
  case Nil
  then show ?case by simp
next
  case (Cons x xs)
  from Cons.prems obtain keep where k: "p x = Inr keep"
    by (cases "p x") simp_all
  with Cons.prems obtain zs where z: "filter_js p xs = Inr zs"
    by (cases "filter_js p xs") simp_all
  from Cons.IH[OF z] k z Cons.prems show ?case by auto
qed

lemma filter_js_total:
  "\<forall>x\<in>set xs. \<exists>b. p x = Inr b \<Longrightarrow> filter_js p xs = Inr (filter (\<lambda>x. p x = Inr True) xs)"
proof (induction xs)
  case Nil
  then show ?case by simp
next
  case (Cons x xs)
  then obtain b where b: "p x = Inr b" by auto
  from Cons have "filter_js p xs = Inr (filter (\<lambda>x. p x = Inr True) xs)" by simp
  with b show ?case by simp
qed

lemma filter_js_Inl:
  assumes "x \<in> set xs" and "p x = Inl e" and "\<And>y e'. p y = Inl e' \<Longrightarrow> e' = e"
  shows "filter_js p xs = Inl e"
  using assms(1)
proof (induction xs)
  case Nil
  then show ?case by simp
next
  case (Cons y ys)
  show ?case
  proof (cases "p y")
    case (Inl e')
    from assms(3)[OF Inl] Inl show ?thesis by simp
  next
    case (Inr keep)
    with assms(2) have "x \<noteq> y" by auto
    with Cons.prems have "x \<in> set ys" by simp
    from Cons.IH[OF this] Inr show ?thesis by simp
  qed
qed

lemma textFilter_blank: "\<not> truthy_string (trim q) \<Longrightarrow> textFilter q items = Inr items"
  by (simp add: textFilter_def)

lemma textFilter_exact:
  assumes "truthy_string (trim q)" and "textFilter q items = Inr ys"
  shows "ys = filter (spec_textMatch q) items"
proof -
  let ?p = "matchesText (trim (toLowerCase q))"
  from assms have f: "filter_js ?p items = Inr ys" by (simp add: textFilter_def)
  from filter_js_Inr[OF f] have ys: "ys = filter (\<lambda>x. ?p x = Inr True) items"
    and all: "\<forall>x\<in>set items. \<exists>b. ?p x = Inr b" by auto
  have "filter (\<lambda>x. ?p x = Inr True) items = filter (spec_textMatch q) items"
  proof (rule filter_cong[OF refl])
    fix x assume "x \<in> set items"
    with all obtain b where b: "?p x = Inr b" by auto
    from matchesText_Inr[OF b] b show "(?p x = Inr True) = spec_textMatch q x" by auto
  qed
  with ys show ?thesis by simp
qed

lemma textFilter_strings:
  assumes "\<forall>i\<in>set items. isString (getProp i ''name'') \<and> isString (getProp i ''category'')"
  shows "\<exists>ys. textFilter q items = Inr ys"
proof (cases "truthy_string (trim q)")
  case True
  have "\<forall>x\<in>set items. \<exists>b. matchesText (trim (toLowerCase q)) x = Inr b"
    using assms matchesText_strings by blast
  from filter_js_total[OF this] True show ?thesis by (simp add: textFilter_def)
next
  case False
  then show ?thesis by (simp add: textFilter_def)
qed



lemma trim_truthy: "truthy_string (trim q) \<Longrightarrow> truthy_string q"
  by (auto simp: truthy_string_def trim_def)

lemma searchPredicate_text_only:
  "searchPredicate P q [] [] [] i =
     (if truthy_string (trim q) then andThen (matchesText (trim (toLowerCase q)) i) Inr else Inr True)"
proof (cases "truthy_string (trim q)")
  case True
  with trim_truthy have "truthy_string q" by blast
  with True show ?thesis
    by (cases "matchesText (trim (toLowerCase q)) i")
       (simp_all add: searchPredicate_def truthy_string_def)
next
  case False
  then show ?thesis by (simp add: searchPredicate_def truthy_string_def)
qed

lemma andThen_Inr: "andThen r Inr = r"
  by (cases r) simp_all

lemma filter_js_True: "filter_js (\<lambda>x. Inr True) xs = Inr xs"
  by (induction xs) simp_all

lemma searchItems_text_only:
  "searchItems P items q [] [] [] = textFilter q items"
proof (cases "truthy_string (trim q)")
  case True
  then have "searchPredicate P q [] [] [] = matchesText (trim (toLowerCase q))"
    by (intro ext) (simp add: searchPredicate_text_only andThen_Inr)
  with True show ?thesis by (simp add: searchItems_def textFilter_def)
next
  case False
  then have "searchPredicate P q [] [] [] = (\<lambda>x. Inr True)"
    by (intro ext) (simp add: searchPredicate_text_only)
  with False show ?thesis by (simp add: searchItems_def textFilter_def filter_js_True)
qed

text \<open>
  Claim C5, as amended. A blank \<open>q\<close> keeps every item. For a \<open>q\<close> that is not blank after
  trimming, whenever the text filter returns, it returns exactly the items whose name or
  category, case-folded, contains the case-folded trimmed \<open>q\<close> as a substring; and it does
  return on every collection whose names and categories are strings. On other collections
  it can throw instead of filtering. The same holds for \<^verbatim>\<open>searchItems\<close> with only \<open>q\<close> given.
  The filter lower-cases before it trims, the specification trims before it lower-cases:
  the two agree.
\<close>

theorem text_filter_keeps_exactly:
  "(\<not> truthy_string (trim q) \<longrightarrow>
      textFilter q items = Inr items \<and> searchItems P items q [] [] [] = Inr items) \<and>
   (truthy_string (trim q) \<longrightarrow>
      (\<forall>ys. textFilter q items = Inr ys \<longrightarrow> ys = filter (spec_textMatch q) items) \<and>
      (\<forall>ys. searchItems P items q [] [] [] = Inr ys \<longrightarrow> ys = filter (spec_textMatch q) items) \<and>
      ((\<forall>i\<in>set items. isString (getProp i ''name'') \<and> isString (getProp i ''category'')) \<longrightarrow>
         textFilter q items = Inr (filter (spec_textMatch q) items) \<and>
         searchItems P items q [] [] [] = Inr (filter (spec_textMatch q) items)))"
proof (intro conjI impI allI)
  assume "\<not> truthy_string (trim q)"
  then show "textFilter q items = Inr items" by (rule textFilter_blank)
  then show "searchItems P items q [] [] [] = Inr items" by (simp add: searchItems_text_only)
next
  fix ys assume "truthy_string (trim q)" "textFilter q items = Inr ys"
  then show "ys = filter (spec_textMatch q) items" by (rule textFilter_exact)
next
  fix ys assume "truthy_string (trim q)" "searchItems P items q [] [] [] = Inr ys"
  then show "ys = filter (spec_textMatch q) items"
    by (simp add: searchItems_text_only textFilter_exact)
next
  assume t: "truthy_string (trim q)"
    and s: "\<forall>i\<in>set items. isString (getProp i ''name'') \<and> isString (getProp i ''category'')"
  from textFilter_strings[OF s] obtain ys where ys: "textFilter q items = Inr ys" by blast
  with textFilter_exact[OF t ys] show "textFilter q items = Inr (filter (spec_textMatch q) items)"
    by simp
  then show "searchItems P items q [] [] [] = Inr (filter (spec_textMatch q) items)"
    by (simp add: searchItems_text_only)
qed

text \<open>
  Searching \<^verbatim>\<open>LAPTOP\<close> and \<^verbatim>\<open>laptop\<close> in the test collection both keep the item named
  \<^verbatim>\<open>Laptop Pro\<close>, and only it.
\<close>

theorem text_filter_laptop_witness:
  "truthy_string (trim ''LAPTOP'') \<and> truthy_string (trim ''laptop'') \<and>
   list_all (\<lambda>i. isString (getProp i ''name'') \<and> isString (getProp i ''category'')) mockItems \<and>
   textFilter ''LAPTOP'' mockItems = Inr [hd mockItems] \<and>
   textFilter ''laptop'' mockItems = Inr [hd mockItems] \<and>
   searchItems examplePlatform mockItems ''LAPTOP'' [] [] [] = Inr [hd mockItems] \<and>
   \<not> truthy_string (trim ''  '') \<and> textFilter ''  '' mockItems = Inr mockItems"
proof -
  have t1: "truthy_string (trim ''LAPTOP'')" and t2: "truthy_string (trim ''laptop'')"
    and t3: "\<not> truthy_string (trim ''  '')"
    by code_simp+
  have s: "\<forall>i\<in>set mockItems. isString (getProp i ''name'') \<and> isString (getProp i ''category'')"
    by code_simp
  have f1: "filter (spec_textMatch ''LAPTOP'') mockItems = [hd mockItems]"
    and f2: "filter (spec_textMatch ''laptop'') mockItems = [hd mockItems]"
    by code_simp+
  from text_filter_keeps_exactly[of "''LAPTOP''" mockItems examplePlatform] t1 s
  have "textFilter ''LAPTOP'' mockItems = Inr (filter (spec_textMatch ''LAPTOP'') mockItems) \<and>
        searchItems examplePlatform mockItems ''LAPTOP'' [] [] [] =
          Inr (filter (spec_textMatch ''LAPTOP'') mockItems)"
    by blast
  then have a: "textFilter ''LAPTOP'' mockItems = Inr [hd mockItems]"
    and c: "searchItems examplePlatform mockItems ''LAPTOP'' [] [] [] = Inr [hd mockItems]"
    unfolding f1 by blast+
  from text_filter_keeps_exactly[of "''laptop''" mockItems examplePlatform] t2 s
  have "textFilter ''laptop'' mockItems = Inr (filter (spec_textMatch ''laptop'') mockItems)"
    by blast
  then have b: "textFilter ''laptop'' mockItems = Inr [hd mockItems]"
    unfolding f2 .
  from text_filter_keeps_exactly[of "''  ''" mockItems examplePlatform] t3
  have d: "textFilter ''  '' mockItems = Inr mockItems" by blast
  from s
  have s': "list_all (\<lambda>i. isString (getProp i ''name'') \<and> isString (getProp i ''category'')) mockItems"
    by (simp add: list_all_iff)
  from t1 t2 t3 s' a b c d show ?thesis by blast
qed

text \<open>
  The claim as stated, for every collection, fails: with an item whose name is null in the
  collection, a search for \<^verbatim>\<open>laptop\<close> throws a TypeError and keeps nothing, where the
  specification's filter keeps the item named \<^verbatim>\<open>Laptop Pro\<close>.
\<close>

theorem text_filter_null_name_counterexample:
  "truthy_string (trim ''laptop'') \<and>
   getProp nullItem ''name'' = Some JNull \<and>
   textFilter ''laptop'' (mockItems @ [nullItem]) = Inl TypeError \<and>
   searchItems examplePlatform (mockItems @ [nullItem]) ''laptop'' [] [] [] = Inl TypeError \<and>
   filter (spec_textMatch ''laptop'') (mockItems @ [nullItem]) = [hd mockItems]"
  by code_simp

section \<open>Errors: the missing item and the null fields\<close>

lemma respond_Inl: "respond P development (Inl err) = errorHandler P development err"
  by (simp add: respond_def)

lemma getItemById_none:
  assumes "\<forall>i\<in>set items. \<not> strictEquals (getProp i ''id'') (parseInt idParam)"
  shows "getItemById (Content items) idParam = Inl (Error ''Item not found'' (Some 404))"
proof -
  from assms have "find (\<lambda>i. strictEquals (getProp i ''id'') (parseInt idParam)) items = None"
    by (simp add: find_None_iff)
  then show ?thesis by (simp add: getItemById_def)
qed

text \<open>
  Claim C4, as amended. For every collection with no item whose \<^verbatim>\<open>id\<close> is strictly equal to
  \<^verbatim>\<open>parseInt\<close> of the path segment, the route answers through the application's
  \<^verbatim>\<open>errorHandler\<close> with status 404 and the body \<^verbatim>\<open>{message: "Item not found"}\<close>, to which
  development mode adds the \<^verbatim>\<open>stack\<close>. The body \<^verbatim>\<open>{error: "Item not found"}\<close> is the one of the
  handler that the test suite installs instead.
\<close>

theorem getItemById_not_found:
  assumes "\<forall>i\<in>set items. \<not> strictEquals (getProp i ''id'') (parseInt idParam)"
  shows "respond P development (getItemById (Content items) idParam) =
           \<lparr>status = 404,
            body = Object ([(''message'', JStr ''Item not found'')] @
                           (if development
                            then [(''stack'', JStr (stackTrace P (Error ''Item not found'' (Some 404))))]
                            else []))\<rparr> \<and>
         (case getItemById (Content items) idParam of
            Inl err \<Rightarrow> testErrorHandler P err
          | Inr res \<Rightarrow> res) =
           \<lparr>status = 404, body = Object [(''error'', JStr ''Item not found'')]\<rparr>"
  unfolding getItemById_none[OF assms] respond_Inl
  by (simp add: errorHandler_def testErrorHandler_def err_message_def truthy_string_def)

theorem getItemById_not_found_witness:
  "list_all (\<lambda>i. \<not> strictEquals (getProp i ''id'') (parseInt ''999'')) mockItems \<and>
   respond examplePlatform False (getItemById (Content mockItems) ''999'') =
     \<lparr>status = 404, body = Object [(''message'', JStr ''Item not found'')]\<rparr>"
proof -
  have h: "\<forall>i\<in>set mockItems. \<not> strictEquals (getProp i ''id'') (parseInt ''999'')"
    unfolding parseInt_999 by (simp add: mockItems_def strictEquals_def getProp_def)
  from getItemById_not_found[OF h, of examplePlatform False] h
  show ?thesis by (simp add: list_all_iff)
qed

text \<open>
  The claim as stated fails on the application: for the test collection and the id 999 the
  body is not \<^verbatim>\<open>{error: "Item not found"}\<close>.
\<close>

theorem getItemById_error_body_counterexample:
  "list_all (\<lambda>i. \<not> strictEquals (getProp i ''id'') (parseInt ''999'')) mockItems \<and>
   status (respond examplePlatform False (getItemById (Content mockItems) ''999'')) = 404 \<and>
   body (respond examplePlatform False (getItemById (Content mockItems) ''999'')) \<noteq>
     Object [(''error'', JStr ''Item not found'')]"
proof -
  have h: "\<forall>i\<in>set mockItems. \<not> strictEquals (getProp i ''id'') (parseInt ''999'')"
    unfolding parseInt_999 by (simp add: mockItems_def strictEquals_def getProp_def)
  from getItemById_none[OF h] h show ?thesis
    by (simp add: respond_Inl errorHandler_def list_all_iff)
qed

lemma matchesText_null_name: "getProp i ''name'' = Some JNull \<Longrightarrow> matchesText t i = Inl TypeError"
  by (simp add: matchesText_unfold)

lemma matchesText_null_category:
  "getProp i ''category'' = Some JNull \<Longrightarrow> matchesText t i \<noteq> Inr False"
  unfolding matchesText_unfold by (simp split: option.splits json.splits)

lemma matchesCategory_null:
  "getProp i ''category'' = Some JNull \<Longrightarrow> matchesCategory c i = Inl TypeError"
  by (simp add: matchesCategory_def call_toLowerCase_def)

lemma matchesCategory_Inl: "matchesCategory c i = Inl e \<Longrightarrow> e = TypeError"
  by (simp add: matchesCategory_def call_toLowerCase_def split: option.splits json.splits)

lemma filter_js_keeps:
  assumes "filter_js p xs = Inr ys" and "x \<in> set xs" and "p x \<noteq> Inr False"
  shows "x \<in> set ys"
proof -
  from filter_js_Inr[OF assms(1)] have ys: "ys = filter (\<lambda>x. p x = Inr True) xs"
    and "\<forall>x\<in>set xs. \<exists>b. p x = Inr b" by blast+
  with assms(2) obtain b where "p x = Inr b" by blast
  with assms(3) have "p x = Inr True" by (cases b) simp_all
  with ys assms(2) show ?thesis by simp
qed


lemma filter_js_Inl_elim:
  "filter_js p xs = Inl e \<Longrightarrow> \<exists>x\<in>set xs. p x = Inl e"
proof (induction xs)
  case Nil
  then show ?case by simp
next
  case (Cons y ys)
  show ?case
  proof (cases "p y")
    case (Inl e')
    with Cons.prems show ?thesis by simp
  next
    case (Inr keep)
    with Cons.prems have "filter_js p ys = Inl e"
      by (cases "filter_js p ys") simp_all
    from Cons.IH[OF this] show ?thesis by auto
  qed
qed

lemma textFilter_Inl: "textFilter q items = Inl e \<Longrightarrow> e = TypeError"
  by (auto simp: textFilter_def split: if_splits dest!: filter_js_Inl_elim matchesText_Inl)

lemma textFilter_null_name:
  assumes "i \<in> set items" and "getProp i ''name'' = Some JNull" and "truthy_string (trim q)"
  shows "textFilter q items = Inl TypeError"
proof -
  have "filter_js (matchesText (trim (toLowerCase q))) items = Inl TypeError"
    by (rule filter_js_Inl[where p = "matchesText (trim (toLowerCase q))", OF assms(1)
          matchesText_null_name[OF assms(2)]]) (rule matchesText_Inl)
  with assms(3) show ?thesis by (simp add: textFilter_def)
qed

lemma textFilter_keeps_null_category:
  assumes "textFilter q items = Inr ys" and "i \<in> set items"
    and "getProp i ''category'' = Some JNull"
  shows "i \<in> set ys"
proof (cases "truthy_string (trim q)")
  case True
  with assms(1) have "filter_js (matchesText (trim (toLowerCase q))) items = Inr ys"
    by (simp add: textFilter_def)
  from filter_js_keeps[OF this assms(2) matchesText_null_category[OF assms(3)]] show ?thesis .
next
  case False
  with assms(1,2) show ?thesis by (simp add: textFilter_def)
qed

lemma categoryFilter_null_category:
  assumes "i \<in> set items" and "getProp i ''category'' = Some JNull"
    and "truthy_string (trim category)"
  shows "categoryFilter category items = Inl TypeError"
proof -
  have "filter_js (matchesCategory category) items = Inl TypeError"
    by (rule filter_js_Inl[where p = "matchesCategory category", OF assms(1)
          matchesCategory_null[OF assms(2)]]) (rule matchesCategory_Inl)
  with assms(3) show ?thesis by (simp add: categoryFilter_def)
qed

lemma listItems_filters_throw:
  assumes "textFilter (orDefault (q_param qry) []) items = Inl e \<or>
           (\<exists>ys. textFilter (orDefault (q_param qry) []) items = Inr ys \<and>
                 categoryFilter (orDefault (category_param qry) []) ys = Inl e)"
  shows "listItems P items qry = Inl e"
  using assms by (auto simp: listItems_def Let_def)

lemma listItems_null:
  assumes "i \<in> set items"
    and "(getProp i ''name'' = Some JNull \<and> truthy_string (trim (orDefault (q_param qry) []))) \<or>
         (getProp i ''category'' = Some JNull \<and>
          truthy_string (trim (orDefault (category_param qry) [])))"
  shows "listItems P items qry = Inl TypeError"
proof -
  let ?q = "orDefault (q_param qry) []" and ?c = "orDefault (category_param qry) []"
  show ?thesis
  proof (cases "textFilter ?q items")
    case (Inl e)
    with textFilter_Inl[OF Inl] show ?thesis by (intro listItems_filters_throw) simp
  next
    case (Inr ys)
    from assms(2) show ?thesis
    proof
      assume "getProp i ''name'' = Some JNull \<and> truthy_string (trim ?q)"
      with textFilter_null_name[OF assms(1)] Inr show ?thesis by simp
    next
      assume c: "getProp i ''category'' = Some JNull \<and> truthy_string (trim ?c)"
      with textFilter_keeps_null_category[OF Inr assms(1)] have "i \<in> set ys" by simp
      from categoryFilter_null_category[OF this] c
      have "categoryFilter ?c ys = Inl TypeError" by simp
      with Inr show ?thesis by (intro listItems_filters_throw) simp
    qed
  qed
qed


lemma searchPredicate_Inl:
  "searchPredicate P q category minPrice maxPrice i = Inl e \<Longrightarrow> e = TypeError"
proof -
  assume a: "searchPredicate P q category minPrice maxPrice i = Inl e"
  let ?A = "if truthy_string q \<and> truthy_string (trim q)
            then matchesText (trim (toLowerCase q)) i else Inr True"
  let ?B = "if truthy_string category \<and> truthy_string (trim category)
            then matchesCategory category i else Inr True"
  show ?thesis
  proof (cases ?A)
    case (Inl e')
    then have "e' = TypeError" by (auto split: if_splits dest: matchesText_Inl)
    with a Inl show ?thesis by (simp add: searchPredicate_def)
  next
    case A: (Inr m)
    show ?thesis
    proof (cases ?B)
      case (Inl e')
      then have "e' = TypeError" by (auto split: if_splits dest: matchesCategory_Inl)
      with a A Inl show ?thesis by (simp add: searchPredicate_def split: if_splits)
    next
      case (Inr c)
      with a A show ?thesis by (simp add: searchPredicate_def split: if_splits)
    qed
  qed
qed

lemma searchPredicate_null:
  assumes "(getProp i ''name'' = Some JNull \<and> truthy_string (trim q)) \<or>
           (getProp i ''category'' = Some JNull \<and> truthy_string (trim category))"
  shows "searchPredicate P q category minPrice maxPrice i = Inl TypeError"
  using assms
proof
  assume n: "getProp i ''name'' = Some JNull \<and> truthy_string (trim q)"
  with trim_truthy have "truthy_string q" by blast
  with n matchesText_null_name[of i] show ?thesis by (simp add: searchPredicate_def)
next
  assume c: "getProp i ''category'' = Some JNull \<and> truthy_string (trim category)"
  with trim_truthy have tc: "truthy_string category" by blast
  let ?A = "if truthy_string q \<and> truthy_string (trim q)
            then matchesText (trim (toLowerCase q)) i else Inr True"
  have "?A = Inl TypeError \<or> ?A = Inr True"
  proof (cases "truthy_string q \<and> truthy_string (trim q)")
    case True
    show ?thesis
    proof (cases "matchesText (trim (toLowerCase q)) i")
      case (Inl e)
      with matchesText_Inl[OF Inl] True show ?thesis by simp
    next
      case (Inr b)
      with matchesText_null_category[of i "trim (toLowerCase q)"] c have "b" by auto
      with Inr True show ?thesis by simp
    qed
  next
    case False
    then have "?A = Inr True" by (simp only: if_False)
    then show ?thesis by blast
  qed
  then show ?thesis
  proof
    assume "?A = Inl TypeError"
    then show ?thesis by (simp add: searchPredicate_def)
  next
    assume "?A = Inr True"
    with c tc matchesCategory_null[of i category] show ?thesis
      by (simp add: searchPredicate_def)
  qed
qed

lemma searchItems_null:
  assumes "i \<in> set items"
    and "(getProp i ''name'' = Some JNull \<and> truthy_string (trim q)) \<or>
         (getProp i ''category'' = Some JNull \<and> truthy_string (trim category))"
  shows "searchItems P items q category minPrice maxPrice = Inl TypeError"
  unfolding searchItems_def
  by (rule filter_js_Inl[where p = "searchPredicate P q category minPrice maxPrice",
        OF assms(1) searchPredicate_null[OF assms(2)]]) (rule searchPredicate_Inl)

lemma errorHandler_TypeError: "status (errorHandler P development TypeError) = 500"
  by (simp add: errorHandler_def)

text \<open>
  Claim C10. When the collection holds an item whose name is null and \<open>q\<close> is not blank, or
  whose category is null and the \<open>category\<close> parameter is not blank, the filters throw a
  TypeError and both the list and the search route answer 500: the item is not filtered out.
\<close>

theorem null_name_or_category_responds_500:
  assumes "i \<in> set items"
    and "(getProp i ''name'' = Some JNull \<and> truthy_string (trim (orDefault (q_param qry) []))) \<or>
         (getProp i ''category'' = Some JNull \<and>
          truthy_string (trim (orDefault (category_param qry) [])))"
  shows "getItems P (Content items) qry = Inl TypeError \<and>
         getSearch P (Content items) qry = Inl TypeError \<and>
         status (respond P development (getItems P (Content items) qry)) = 500 \<and>
         status (respond P development (getSearch P (Content items) qry)) = 500"
proof -
  have l: "getItems P (Content items) qry = Inl TypeError"
    by (simp add: getItems_def listItems_null[OF assms])
  have "advancedSearch P items qry = Inl TypeError"
    by (simp add: advancedSearch_def Let_def searchItems_null[OF assms])
  then have s: "getSearch P (Content items) qry = Inl TypeError"
    by (simp add: getSearch_def)
  from l s show ?thesis by (simp add: respond_Inl errorHandler_TypeError)
qed

theorem null_name_or_category_witness:
  "nullItem \<in> set (mockItems @ [nullItem]) \<and>
   getProp nullItem ''name'' = Some JNull \<and>
   truthy_string (trim (orDefault (q_param (emptyQuery\<lparr>q_param := Some ''laptop''\<rparr>)) [])) \<and>
   getItems examplePlatform (Content (mockItems @ [nullItem])) (emptyQuery\<lparr>q_param := Some ''laptop''\<rparr>)
     = Inl TypeError \<and>
   status (respond examplePlatform False
     (getItems examplePlatform (Content (mockItems @ [nullItem]))
        (emptyQuery\<lparr>q_param := Some ''laptop''\<rparr>))) = 500 \<and>
   status (respond examplePlatform False
     (getSearch examplePlatform (Content (mockItems @ [nullItem]))
        (emptyQuery\<lparr>q_param := Some ''laptop''\<rparr>))) = 500"
proof -
  let ?qry = "emptyQuery\<lparr>q_param := Some ''laptop''\<rparr>"
  have m: "nullItem \<in> set (mockItems @ [nullItem])" by simp
  have n: "getProp nullItem ''name'' = Some JNull" by (simp add: nullItem_def getProp_def)
  have t: "truthy_string (trim (orDefault (q_param ?qry) []))"
    by (simp add: orDefault_def trim_def isWhiteSpace_def truthy_string_def)
  from n t
  have h: "(getProp nullItem ''name'' = Some JNull \<and>
            truthy_string (trim (orDefault (q_param ?qry) []))) \<or>
           (getProp nullItem ''category'' = Some JNull \<and>
            truthy_string (trim (orDefault (category_param ?qry) [])))"
    by blast
  from null_name_or_category_responds_500[OF m h, of examplePlatform False] m n t
  show ?thesis by blast
qed

section \<open>Sorting keeps the items; pagination\<close>

lemma insertSorted_mset:
  "insertSorted cmp x ys = Inr zs \<Longrightarrow> mset zs = add_mset x (mset ys)"
proof (induction ys arbitrary: zs)
  case Nil
  then show ?case by auto
next
  case (Cons y ys)
  from Cons.prems obtain c where c: "cmp x y = Inr c"
    by (cases "cmp x y") simp_all
  show ?case
  proof (cases "c < 0")
    case True
    with Cons.prems c show ?thesis by auto
  next
    case False
    with Cons.prems c obtain zs' where z: "insertSorted cmp x ys = Inr zs'" and "zs = y # zs'"
      by (cases "insertSorted cmp x ys") auto
    with Cons.IH[OF z] show ?thesis by simp
  qed
qed

lemma sortFrom_mset:
  "sortFrom cmp placed xs = Inr zs \<Longrightarrow> mset zs = mset placed + mset xs"
proof (induction xs arbitrary: placed zs)
  case Nil
  then show ?case by simp
next
  case (Cons x xs)
  from Cons.prems obtain placed' where p: "insertSorted cmp x placed = Inr placed'"
    and s: "sortFrom cmp placed' xs = Inr zs"
    by (cases "insertSorted cmp x placed") simp_all
  from Cons.IH[OF s] insertSorted_mset[OF p] show ?case by simp
qed

lemma sort_js_mset: "sort_js cmp xs = Inr ys \<Longrightarrow> mset ys = mset xs"
  by (simp add: sort_js_def sortFrom_mset)

lemma sort_js_length: "sort_js cmp xs = Inr ys \<Longrightarrow> length ys = length xs"
  by (metis sort_js_mset size_mset)

lemma listItems_Inr:
  assumes "listItems P items qry = Inr pg"
  obtains filtered sortedResults where
    "listFiltered items qry = Inr filtered"
    "sort_js (requestComparator P qry) filtered = Inr sortedResults"
    "pg = paginated sortedResults (length filtered)
            (parseInt (orDefault (limit_param qry) ''10''))
            (parseInt (orDefault (page_param qry) ''1''))
            [(''search'', JStr (orDefault (q_param qry) [])),
             (''category'', JStr (orDefault (category_param qry) [])),
             (''sortBy'', JStr (orDefault (sortBy_param qry) ''id'')),
             (''sortOrder'', JStr (orDefault (sortOrder_param qry) ''asc''))]"
proof -
  let ?q = "orDefault (q_param qry) []" and ?c = "orDefault (category_param qry) []"
  from assms obtain f1 where f1: "textFilter ?q items = Inr f1"
    by (cases "textFilter ?q items") (simp_all add: listItems_def Let_def)
  with assms obtain f2 where f2: "categoryFilter ?c f1 = Inr f2"
    by (cases "categoryFilter ?c f1") (simp_all add: listItems_def Let_def)
  with assms f1 obtain ss where ss: "sort_js (requestComparator P qry) f2 = Inr ss"
    by (cases "sort_js (requestComparator P qry) f2")
       (simp_all add: listItems_def Let_def requestComparator_def)
  from f1 f2 have "listFiltered items qry = Inr f2" by (simp add: listFiltered_def)
  moreover from assms f1 f2 ss have "pg = paginated ss (length f2)
            (parseInt (orDefault (limit_param qry) ''10''))
            (parseInt (orDefault (page_param qry) ''1''))
            [(''search'', JStr (orDefault (q_param qry) [])),
             (''category'', JStr (orDefault (category_param qry) [])),
             (''sortBy'', JStr (orDefault (sortBy_param qry) ''id'')),
             (''sortOrder'', JStr (orDefault (sortOrder_param qry) ''asc''))]"
    by (simp add: listItems_def Let_def requestComparator_def)
  ultimately show thesis using ss that by blast
qed

lemma advancedSearch_Inr:
  assumes "advancedSearch P items qry = Inr pg"
  obtains filtered sortedResults where
    "searchFiltered P items qry = Inr filtered"
    "sort_js (requestComparator P qry) filtered = Inr sortedResults"
    "pg = paginated sortedResults (length filtered)
            (parseInt (orDefault (limit_param qry) ''10''))
            (parseInt (orDefault (page_param qry) ''1''))
            [(''search'', JStr (orDefault (q_param qry) [])),
             (''category'', JStr (orDefault (category_param qry) [])),
             (''minPrice'', JStr (orDefault (minPrice_param qry) [])),
             (''maxPrice'', JStr (orDefault (maxPrice_param qry) [])),
             (''sortBy'', JStr (orDefault (sortBy_param qry) ''id'')),
             (''sortOrder'', JStr (orDefault (sortOrder_param qry) ''asc''))]"
proof -
  from assms obtain f where f: "searchFiltered P items qry = Inr f"
    by (cases "searchFiltered P items qry")
       (simp_all add: advancedSearch_def Let_def searchFiltered_def)
  with assms obtain ss where ss: "sort_js (requestComparator P qry) f = Inr ss"
    by (cases "sort_js (requestComparator P qry) f")
       (simp_all add: advancedSearch_def Let_def requestComparator_def searchFiltered_def)
  from assms f ss have "pg = paginated ss (length f)
            (parseInt (orDefault (limit_param qry) ''10''))
            (parseInt (orDefault (page_param qry) ''1''))
            [(''search'', JStr (orDefault (q_param qry) [])),
             (''category'', JStr (orDefault (category_param qry) [])),
             (''minPrice'', JStr (orDefault (minPrice_param qry) [])),
             (''maxPrice'', JStr (orDefault (maxPrice_param qry) [])),
             (''sortBy'', JStr (orDefault (sortBy_param qry) ''id'')),
             (''sortOrder'', JStr (orDefault (sortOrder_param qry) ''asc''))]"
    by (simp add: advancedSearch_def Let_def requestComparator_def searchFiltered_def)
  with f ss show thesis using that by blast
qed

lemma js_truncate_of_int [simp]: "js_truncate (of_int i) = i"
  by (simp add: js_truncate_def)






lemma totalPages_positive:
  assumes "0 < l"
  shows "js_ceil (js_div (Fin (of_nat n)) (Fin (of_int l))) =
           Fin (of_int \<lceil>of_nat n / (of_int l :: rat)\<rceil>)"
proof (cases "n = 0")
  case True
  with assms show ?thesis by (simp add: js_div_def signedZero_def)
next
  case False
  with assms have "0 < of_nat n / (of_int l :: rat)" by simp
  then have "\<not> of_nat n / (of_int l :: rat) < 0" by simp
  with assms False show ?thesis by (simp add: js_div_def)
qed

lemma js_lt_Fin [simp]: "js_lt (Fin a) (Fin b) = (a < b)"
  by simp

lemma paginated_fields:
  "data (paginated ss n limitNum pageNum echoed) =
     slice ss (js_mul (js_sub pageNum (Fin 1)) limitNum)
       (js_add (js_mul (js_sub pageNum (Fin 1)) limitNum) limitNum)"
  "totalItems (pagination (paginated ss n limitNum pageNum echoed)) = n"
  "totalPages (pagination (paginated ss n limitNum pageNum echoed)) =
     js_ceil (js_div (Fin (of_nat n)) limitNum)"
  "currentPage (pagination (paginated ss n limitNum pageNum echoed)) = pageNum"
  "itemsPerPage (pagination (paginated ss n limitNum pageNum echoed)) = limitNum"
  "hasNextPage (pagination (paginated ss n limitNum pageNum echoed)) =
     js_lt pageNum (js_ceil (js_div (Fin (of_nat n)) limitNum))"
  "hasPrevPage (pagination (paginated ss n limitNum pageNum echoed)) = js_lt (Fin 1) pageNum"
  "filters (paginated ss n limitNum pageNum echoed) = echoed"
  by (simp_all add: paginated_def Let_def)


lemma getItems_Inr:
  assumes "getItems P (Content items) qry = Inr res"
  obtains pg where "listItems P items qry = Inr pg" "res = json_response (Listing pg)"
  using assms by (cases "listItems P items qry") (auto simp: getItems_def)

lemma getSearch_Inr:
  assumes "getSearch P (Content items) qry = Inr res"
  obtains pg where "advancedSearch P items qry = Inr pg" "res = json_response (Listing pg)"
  using assms by (cases "advancedSearch P items qry") (auto simp: getSearch_def)

lemma listItems_page:
  assumes "listItems P items qry = Inr pg"
  obtains filtered sortedResults echoed where
    "listFiltered items qry = Inr filtered"
    "sort_js (requestComparator P qry) filtered = Inr sortedResults"
    "length sortedResults = length filtered"
    "pg = paginated sortedResults (length filtered) (limitNumOf qry) (pageNumOf qry) echoed"
proof -
  from assms obtain filtered sortedResults where
    f: "listFiltered items qry = Inr filtered" and
    s: "sort_js (requestComparator P qry) filtered = Inr sortedResults" and
    eq: "pg = paginated sortedResults (length filtered)
            (parseInt (orDefault (limit_param qry) ''10''))
            (parseInt (orDefault (page_param qry) ''1''))
            [(''search'', JStr (orDefault (q_param qry) [])),
             (''category'', JStr (orDefault (category_param qry) [])),
             (''sortBy'', JStr (orDefault (sortBy_param qry) ''id'')),
             (''sortOrder'', JStr (orDefault (sortOrder_param qry) ''asc''))]"
    by (rule listItems_Inr)
  show thesis
    by (rule that[OF f s sort_js_length[OF s]]) (simp only: eq limitNumOf_def pageNumOf_def)
qed

lemma advancedSearch_page:
  assumes "advancedSearch P items qry = Inr pg"
  obtains filtered sortedResults echoed where
    "searchFiltered P items qry = Inr filtered"
    "sort_js (requestComparator P qry) filtered = Inr sortedResults"
    "length sortedResults = length filtered"
    "pg = paginated sortedResults (length filtered) (limitNumOf qry) (pageNumOf qry) echoed"
proof -
  from assms obtain filtered sortedResults where
    f: "searchFiltered P items qry = Inr filtered" and
    s: "sort_js (requestComparator P qry) filtered = Inr sortedResults" and
    eq: "pg = paginated sortedResults (length filtered)
            (parseInt (orDefault (limit_param qry) ''10''))
            (parseInt (orDefault (page_param qry) ''1''))
            [(''search'', JStr (orDefault (q_param qry) [])),
             (''category'', JStr (orDefault (category_param qry) [])),
             (''minPrice'', JStr (orDefault (minPrice_param qry) [])),
             (''maxPrice'', JStr (orDefault (maxPrice_param qry) [])),
             (''sortBy'', JStr (orDefault (sortBy_param qry) ''id'')),
             (''sortOrder'', JStr (orDefault (sortOrder_param qry) ''asc''))]"
    by (rule advancedSearch_Inr)
  show thesis
    by (rule that[OF f s sort_js_length[OF s]]) (simp only: eq limitNumOf_def pageNumOf_def)
qed




lemma json_response_inject: "json_response (Listing a) = json_response (Listing b) \<Longrightarrow> a = b"
  by (simp add: json_response_def)

section \<open>Pagination metadata and the slice\<close>

lemma paginated_flags:
  assumes "0 < l"
  shows "totalPages (pagination (paginated ss n (Fin (of_int l)) pageNum echoed)) =
           Fin (of_int \<lceil>of_nat n / (of_int l :: rat)\<rceil>)"
    and "hasNextPage (pagination (paginated ss n (Fin (of_int l)) pageNum echoed)) =
           js_lt pageNum (Fin (of_int \<lceil>of_nat n / (of_int l :: rat)\<rceil>))"
    and "hasPrevPage (pagination (paginated ss n (Fin (of_int l)) pageNum echoed)) =
           js_lt (Fin 1) pageNum"
  by (simp_all only: paginated_fields totalPages_positive[OF assms])

lemma paginated_spec:
  assumes "0 < l"
  shows "spec_pagination (pagination (paginated ss n (Fin (of_int l)) pageNum echoed)) n l pageNum"
  unfolding spec_pagination_def paginated_flags[OF assms]
  by (simp add: paginated_fields)

text \<open>
  Claim C3, as amended. For a limit that \<^verbatim>\<open>parseInt\<close> reads as a finite number \<open>l > 0\<close>
  (one that does not round to Infinity; \<open>l\<close> is the double nearest to it), every page
  that the list route or the search route sends has \<open>totalItems\<close> equal to the size of the
  filtered collection (taken before sorting and slicing),
  \<open>totalPages = \<lceil>totalItems / l\<rceil>\<close>, \<open>hasNextPage = (page < totalPages)\<close> and
  \<open>hasPrevPage = (page > 1)\<close>, the comparisons being those of the language on the parsed
  page, and those of the integers when the page is an integer.
\<close>

theorem pagination_metadata:
  assumes "limitNumOf qry = Fin (of_int l)" and "0 < l"
  shows "(\<forall>res. getItems P (Content items) qry = Inr res \<longrightarrow>
            (\<exists>pg filtered. res = json_response (Listing pg) \<and>
               listFiltered items qry = Inr filtered \<and>
               spec_pagination (pagination pg) (length filtered) l (pageNumOf qry))) \<and>
         (\<forall>res. getSearch P (Content items) qry = Inr res \<longrightarrow>
            (\<exists>pg filtered. res = json_response (Listing pg) \<and>
               searchFiltered P items qry = Inr filtered \<and>
               spec_pagination (pagination pg) (length filtered) l (pageNumOf qry)))"
proof (intro conjI allI impI)
  fix res assume "getItems P (Content items) qry = Inr res"
  then obtain pg where pg: "listItems P items qry = Inr pg" and res: "res = json_response (Listing pg)"
    by (rule getItems_Inr)
  from pg obtain filtered sortedResults echoed where
    f: "listFiltered items qry = Inr filtered" and
    eq: "pg = paginated sortedResults (length filtered) (limitNumOf qry) (pageNumOf qry) echoed"
    by (rule listItems_page)
  from eq assms(1) paginated_spec[OF assms(2)]
  have "spec_pagination (pagination pg) (length filtered) l (pageNumOf qry)" by simp
  with res f show "\<exists>pg filtered. res = json_response (Listing pg) \<and>
               listFiltered items qry = Inr filtered \<and>
               spec_pagination (pagination pg) (length filtered) l (pageNumOf qry)"
    by blast
next
  fix res assume "getSearch P (Content items) qry = Inr res"
  then obtain pg where pg: "advancedSearch P items qry = Inr pg"
    and res: "res = json_response (Listing pg)"
    by (rule getSearch_Inr)
  from pg obtain filtered sortedResults echoed where
    f: "searchFiltered P items qry = Inr filtered" and
    eq: "pg = paginated sortedResults (length filtered) (limitNumOf qry) (pageNumOf qry) echoed"
    by (rule advancedSearch_page)
  from eq assms(1) paginated_spec[OF assms(2)]
  have "spec_pagination (pagination pg) (length filtered) l (pageNumOf qry)" by simp
  with res f show "\<exists>pg filtered. res = json_response (Listing pg) \<and>
               searchFiltered P items qry = Inr filtered \<and>
               spec_pagination (pagination pg) (length filtered) l (pageNumOf qry)"
    by blast
qed

lemma secondPageQuery_nums:
  "limitNumOf secondPageQuery = Fin (of_int 2)" "pageNumOf secondPageQuery = Fin (of_int 2)"
  by (simp_all add: secondPageQuery_def limitNumOf_def pageNumOf_def orDefault_def parseInt_eval)

lemma getItems_secondPage:
  "getItems examplePlatform (Content mockItems) secondPageQuery =
     Inr (json_response (Listing secondPage))"
  by code_simp

lemma listFiltered_no_filters:
  "q_param qry = None \<Longrightarrow> category_param qry = None \<Longrightarrow> listFiltered items qry = Inr items"
  by (simp add: listFiltered_def orDefault_def textFilter_def categoryFilter_def trim_def
      truthy_string_def)

theorem pagination_metadata_witness:
  "limitNumOf secondPageQuery = Fin (of_int 2) \<and> (0 :: int) < 2 \<and>
   getItems examplePlatform (Content mockItems) secondPageQuery =
     Inr (json_response (Listing secondPage)) \<and>
   spec_pagination (pagination secondPage) 3 2 (Fin 2) \<and>
   totalPages (pagination secondPage) = Fin 2 \<and>
   hasNextPage (pagination secondPage) = False \<and>
   hasPrevPage (pagination secondPage) = True"
proof -
  have pos: "(0 :: int) < 2" by simp
  note l = secondPageQuery_nums(1) and e = getItems_secondPage
  from pagination_metadata[OF l pos, of examplePlatform mockItems]
  have "\<forall>res. getItems examplePlatform (Content mockItems) secondPageQuery = Inr res \<longrightarrow>
            (\<exists>pg filtered. res = json_response (Listing pg) \<and>
               listFiltered mockItems secondPageQuery = Inr filtered \<and>
               spec_pagination (pagination pg) (length filtered) 2 (pageNumOf secondPageQuery))"
    by (rule conjunct1)
  from this[THEN spec, THEN mp, OF e] obtain pg filtered where
    all: "json_response (Listing secondPage) = json_response (Listing pg) \<and>
          listFiltered mockItems secondPageQuery = Inr filtered \<and>
          spec_pagination (pagination pg) (length filtered) 2 (pageNumOf secondPageQuery)"
    by (elim exE)
  from all have "json_response (Listing secondPage) = json_response (Listing pg)"
    by (rule conjunct1)
  then have pg: "pg = secondPage" by (simp add: json_response_inject)
  have "listFiltered mockItems secondPageQuery = Inr mockItems"
    by (rule listFiltered_no_filters) (simp_all add: secondPageQuery_def emptyQuery_def)
  with all have "filtered = mockItems" by simp
  then have len: "length filtered = 3" by (simp add: mockItems_def)
  from all have "spec_pagination (pagination pg) (length filtered) 2 (pageNumOf secondPageQuery)"
    by (elim conjE)
  with pg len secondPageQuery_nums(2)
  have s: "spec_pagination (pagination secondPage) 3 2 (Fin 2)" by simp
  have "totalPages (pagination secondPage) = Fin 2 \<and>
        hasNextPage (pagination secondPage) = False \<and>
        hasPrevPage (pagination secondPage) = True"
    by (simp add: secondPage_def)
  with l pos e s show ?thesis by blast
qed

lemma sort_mockItems_default:
  "sort_js (compareItems examplePlatform ''id'' ''asc'') mockItems = Inr mockItems"
  by code_simp


lemma getItems_mockItems_default:
  assumes "q_param qry = None" and "category_param qry = None"
    and "sortBy_param qry = None" and "sortOrder_param qry = None"
  shows "getItems examplePlatform (Content mockItems) qry =
           Inr (json_response (Listing (paginated mockItems 3 (limitNumOf qry) (pageNumOf qry)
             [(''search'', JStr []), (''category'', JStr []),
              (''sortBy'', JStr ''id''), (''sortOrder'', JStr ''asc'')])))"
proof -
  have t: "textFilter [] mockItems = Inr mockItems"
    by (simp add: textFilter_def trim_def truthy_string_def)
  have c: "categoryFilter [] mockItems = Inr mockItems"
    by (simp add: categoryFilter_def trim_def truthy_string_def)
  have n: "length mockItems = 3" by (simp add: mockItems_def)
  show ?thesis
    by (simp add: getItems_def listItems_def Let_def orDefault_def assms t c n
        sort_mockItems_default limitNumOf_def pageNumOf_def)
qed


lemma hugeLimitQuery_nums:
  "limitNumOf hugeLimitQuery = PosInf" "pageNumOf hugeLimitQuery = Fin 1"
  by (simp_all add: hugeLimitQuery_def limitNumOf_def pageNumOf_def orDefault_def emptyQuery_def
      parseInt_hugeNumeral) (simp add: parseInt_eval)


lemma getItems_hugeLimit:
  "getItems examplePlatform (Content mockItems) hugeLimitQuery =
     Inr (json_response (Listing hugeLimitPage))"
proof -
  have "paginated mockItems 3 PosInf (Fin 1)
          [(''search'', JStr []), (''category'', JStr []),
           (''sortBy'', JStr ''id''), (''sortOrder'', JStr ''asc'')] = hugeLimitPage"
    by code_simp
  moreover have "getItems examplePlatform (Content mockItems) hugeLimitQuery =
           Inr (json_response (Listing (paginated mockItems 3 (limitNumOf hugeLimitQuery)
             (pageNumOf hugeLimitQuery)
             [(''search'', JStr []), (''category'', JStr []),
              (''sortBy'', JStr ''id''), (''sortOrder'', JStr ''asc'')])))"
    by (rule getItems_mockItems_default) (simp_all add: hugeLimitQuery_def emptyQuery_def)
  ultimately show ?thesis by (simp only: hugeLimitQuery_nums)
qed



lemma ceiling_small: "\<lceil>3 / (of_int (10 ^ 309) :: rat)\<rceil> = 1"
proof (rule ceiling_unique)
  have "(3::int) \<le> 10 ^ 309" by simp
  then have "(3::rat) \<le> of_int (10 ^ 309)" by (simp only: of_int_le_iff[symmetric, where 'a = rat] of_int_numeral)
  then show "3 / (of_int (10 ^ 309) :: rat) \<le> of_int 1" by (simp add: divide_le_eq)
  show "of_int 1 - 1 < 3 / (of_int (10 ^ 309) :: rat)" by simp
qed

text \<open>
  The claim as stated, for every limit \<open>> 0\<close>, fails at a limit that overflows: for the
  limit \<open>10^309\<close> the route reads Infinity and sends \<^verbatim>\<open>totalPages\<close> 0 for the three items of
  the test collection, where \<open>\<lceil>3 / 10^309\<rceil> = 1\<close>.
\<close>

theorem pagination_metadata_counterexample:
  "digitsValue 10 hugeNumeral = 10 ^ 309 \<and>
   limitNumOf hugeLimitQuery = PosInf \<and>
   getItems examplePlatform (Content mockItems) hugeLimitQuery =
     Inr (json_response (Listing hugeLimitPage)) \<and>
   totalItems (pagination hugeLimitPage) = 3 \<and>
   totalPages (pagination hugeLimitPage) = Fin 0 \<and>
   \<lceil>3 / (of_int (10 ^ 309) :: rat)\<rceil> = 1 \<and>
   \<not> spec_pagination (pagination hugeLimitPage) 3 (10 ^ 309) (pageNumOf hugeLimitQuery)"
proof -
  have d: "digitsValue 10 hugeNumeral = 10 ^ 309"
    unfolding hugeNumeral_def by (rule digitsValue_one_zeros)
  have t: "totalItems (pagination hugeLimitPage) = 3"
    and tp: "totalPages (pagination hugeLimitPage) = Fin 0"
    by (simp_all add: hugeLimitPage_def)
  have "totalPages (pagination hugeLimitPage) \<noteq> Fin (of_int \<lceil>of_nat 3 / (of_int (10 ^ 309) :: rat)\<rceil>)"
    unfolding tp by (simp only: of_nat_numeral ceiling_small) simp
  then have s: "\<not> spec_pagination (pagination hugeLimitPage) 3 (10 ^ 309) (pageNumOf hugeLimitQuery)"
    unfolding spec_pagination_def by (elim contrapos_nn) (elim conjE, assumption)
  from d hugeLimitQuery_nums(1) getItems_hugeLimit t tp ceiling_small s show ?thesis
    by (intro conjI)
qed











section \<open>Sorting by price and by name\<close>

lemma insertSorted_sorted:
  assumes cmp: "\<forall>a\<in>S. \<forall>b\<in>S. \<exists>c. cmp a b = Inr c \<and> (c < 0 \<longleftrightarrow> \<not> R b a)"
    and total: "\<forall>a b. R a b \<or> R b a"
    and trans: "\<forall>a b c. R a b \<longrightarrow> R b c \<longrightarrow> R a c"
    and x: "x \<in> S"
  shows "set ys \<subseteq> S \<Longrightarrow> sorted_wrt R ys \<Longrightarrow>
         \<exists>zs. insertSorted cmp x ys = Inr zs \<and> sorted_wrt R zs \<and> set zs = insert x (set ys)"
proof (induction ys)
  case Nil
  then show ?case by simp
next
  case (Cons y ys)
  from Cons.prems have y: "y \<in> S" and ys: "set ys \<subseteq> S" by simp_all
  from cmp x y obtain c where c: "cmp x y = Inr c" and lt: "c < 0 \<longleftrightarrow> \<not> R y x" by blast
  show ?case
  proof (cases "c < 0")
    case True
    with lt total have xy: "R x y" by blast
    have "\<forall>z\<in>set ys. R x z"
    proof
      fix z assume "z \<in> set ys"
      with Cons.prems(2) have "R y z" by simp
      with trans xy show "R x z" by blast
    qed
    with xy Cons.prems(2) have "sorted_wrt R (x # y # ys)" by simp
    with c True show ?thesis by simp
  next
    case False
    with lt have yx: "R y x" by blast
    from Cons.prems(2) have sys: "sorted_wrt R ys" and yz: "\<forall>z\<in>set ys. R y z" by simp_all
    from Cons.IH[OF ys sys] obtain zs where
      zs: "insertSorted cmp x ys = Inr zs" and s: "sorted_wrt R zs"
      and set: "set zs = insert x (set ys)" by blast
    from yz yx set have "\<forall>z\<in>set zs. R y z" by simp
    with s have "sorted_wrt R (y # zs)" by simp
    moreover from c False zs have "insertSorted cmp x (y # ys) = Inr (y # zs)" by simp
    moreover from set have "set (y # zs) = insert x (set (y # ys))" by auto
    ultimately show ?thesis by blast
  qed
qed

lemma sortFrom_sorted:
  assumes cmp: "\<forall>a\<in>S. \<forall>b\<in>S. \<exists>c. cmp a b = Inr c \<and> (c < 0 \<longleftrightarrow> \<not> R b a)"
    and total: "\<forall>a b. R a b \<or> R b a"
    and trans: "\<forall>a b c. R a b \<longrightarrow> R b c \<longrightarrow> R a c"
  shows "set xs \<subseteq> S \<Longrightarrow> set placed \<subseteq> S \<Longrightarrow> sorted_wrt R placed \<Longrightarrow>
         \<exists>zs. sortFrom cmp placed xs = Inr zs \<and> sorted_wrt R zs"
proof (induction xs arbitrary: placed)
  case Nil
  then show ?case by simp
next
  case (Cons x xs)
  from Cons.prems have x: "x \<in> S" and xs: "set xs \<subseteq> S" by simp_all
  from insertSorted_sorted[OF cmp total trans x Cons.prems(2,3)]
  obtain placed' where p: "insertSorted cmp x placed = Inr placed'"
    and s: "sorted_wrt R placed'" and set: "set placed' = insert x (set placed)"
    by blast
  from set x Cons.prems(2) have "set placed' \<subseteq> S" by simp
  from Cons.IH[OF xs this s] p show ?case by simp
qed

lemma sort_js_sorted:
  assumes cmp: "\<forall>a\<in>set xs. \<forall>b\<in>set xs. \<exists>c. cmp a b = Inr c \<and> (c < 0 \<longleftrightarrow> \<not> R b a)"
    and total: "\<forall>a b. R a b \<or> R b a"
    and trans: "\<forall>a b c. R a b \<longrightarrow> R b c \<longrightarrow> R a c"
  shows "\<exists>zs. sort_js cmp xs = Inr zs \<and> sorted_wrt R zs \<and> mset zs = mset xs"
proof -
  have "set xs \<subseteq> set xs" and "set [] \<subseteq> set xs" and "sorted_wrt R []" by simp_all
  from sortFrom_sorted[OF cmp total trans this]
  obtain zs where z: "sortFrom cmp [] xs = Inr zs" and s: "sorted_wrt R zs"
    by blast
  from z have e: "sort_js cmp xs = Inr zs" by (simp add: sort_js_def)
  from sort_js_mset[OF e] e s show ?thesis by blast
qed

lemma compareItems_price_desc:
  assumes "hasNumericPrice a" and "hasNumericPrice b"
  shows "compareItems P ''price'' ''desc'' a b =
           Inr (if priceOf a < priceOf b then 1 else if priceOf b < priceOf a then - 1 else 0)"
proof -
  from assms obtain ra rb where a: "getProp a ''price'' = Some (JNum ra)"
    and b: "getProp b ''price'' = Some (JNum rb)"
    by (auto simp: hasNumericPrice_def split: option.splits json.splits)
  then show ?thesis
    by (simp add: compareItems_def priceOf_def js_less_def)
qed

lemma compareItems_name_asc:
  assumes "hasStringName a" and "hasStringName b"
  shows "compareItems P ''name'' ''asc'' a b =
           Inr (if foldedNameOf b < foldedNameOf a then 1
                else if foldedNameOf a < foldedNameOf b then - 1 else 0)"
proof -
  from assms obtain sa sb where a: "getProp a ''name'' = Some (JStr sa)"
    and b: "getProp b ''name'' = Some (JStr sb)"
    by (auto simp: hasStringName_def isString_def split: option.splits json.splits)
  then show ?thesis
    by (simp add: compareItems_def foldedNameOf_def js_less_def call_toLowerCase_def)
qed

lemma sort_price_desc:
  assumes "\<forall>i\<in>set xs. hasNumericPrice i"
  shows "\<exists>ys. sort_js (compareItems P ''price'' ''desc'') xs = Inr ys \<and> mset ys = mset xs \<and>
              sorted_wrt (\<ge>) (map priceOf ys)"
proof -
  let ?R = "\<lambda>a b. priceOf a \<ge> priceOf b"
  have cmp: "\<forall>a\<in>set xs. \<forall>b\<in>set xs. \<exists>c. compareItems P ''price'' ''desc'' a b = Inr c \<and>
               (c < 0 \<longleftrightarrow> \<not> ?R b a)"
  proof (intro ballI)
    fix a b assume "a \<in> set xs" "b \<in> set xs"
    with assms have "hasNumericPrice a" "hasNumericPrice b" by simp_all
    from compareItems_price_desc[OF this, of P]
    show "\<exists>c. compareItems P ''price'' ''desc'' a b = Inr c \<and> (c < 0 \<longleftrightarrow> \<not> ?R b a)"
      by auto
  qed
  have total: "\<forall>a b. ?R a b \<or> ?R b a" by auto
  have trans: "\<forall>a b c. ?R a b \<longrightarrow> ?R b c \<longrightarrow> ?R a c" by auto
  from sort_js_sorted[OF cmp total trans] show ?thesis
    by (auto simp: sorted_wrt_map)
qed

lemma sort_name_asc:
  assumes "\<forall>i\<in>set xs. hasStringName i"
  shows "\<exists>zs. sort_js (compareItems P ''name'' ''asc'') xs = Inr zs \<and> mset zs = mset xs \<and>
              sorted (map foldedNameOf zs)"
proof -
  let ?R = "\<lambda>a b. foldedNameOf a \<le> foldedNameOf b"
  have cmp: "\<forall>a\<in>set xs. \<forall>b\<in>set xs. \<exists>c. compareItems P ''name'' ''asc'' a b = Inr c \<and>
               (c < 0 \<longleftrightarrow> \<not> ?R b a)"
  proof (intro ballI)
    fix a b assume "a \<in> set xs" "b \<in> set xs"
    with assms have "hasStringName a" "hasStringName b" by simp_all
    from compareItems_name_asc[OF this, of P]
    show "\<exists>c. compareItems P ''name'' ''asc'' a b = Inr c \<and> (c < 0 \<longleftrightarrow> \<not> ?R b a)"
      by auto
  qed
  have total: "\<forall>a b. ?R a b \<or> ?R b a" by auto
  have trans: "\<forall>a b c. ?R a b \<longrightarrow> ?R b c \<longrightarrow> ?R a c" by auto
  from sort_js_sorted[OF cmp total trans] show ?thesis
    by (auto simp: sorted_map)
qed

lemma sorted_wrt_slice: "sorted_wrt R xs \<Longrightarrow> sorted_wrt R (slice xs a b)"
  by (simp add: slice_def Let_def)

lemma textFilter_subset: "textFilter q items = Inr ys \<Longrightarrow> set ys \<subseteq> set items"
  by (auto simp: textFilter_def split: if_splits dest!: filter_js_Inr)

lemma categoryFilter_subset: "categoryFilter c items = Inr ys \<Longrightarrow> set ys \<subseteq> set items"
  by (auto simp: categoryFilter_def split: if_splits dest!: filter_js_Inr)

lemma listFiltered_subset:
  assumes "listFiltered items qry = Inr ys"
  shows "set ys \<subseteq> set items"
proof -
  from assms obtain f1 where f1: "textFilter (orDefault (q_param qry) []) items = Inr f1"
    by (cases "textFilter (orDefault (q_param qry) []) items") (simp_all add: listFiltered_def)
  with assms have "categoryFilter (orDefault (category_param qry) []) f1 = Inr ys"
    by (simp add: listFiltered_def)
  from categoryFilter_subset[OF this] textFilter_subset[OF f1] show ?thesis by blast
qed

lemma searchFiltered_subset: "searchFiltered P items qry = Inr ys \<Longrightarrow> set ys \<subseteq> set items"
  by (auto simp: searchFiltered_def searchItems_def dest!: filter_js_Inr)

lemma data_price_sorted:
  assumes items: "\<forall>i\<in>set items. hasNumericPrice i"
    and sub: "set filtered \<subseteq> set items"
    and s: "sort_js (requestComparator P qry) filtered = Inr sortedResults"
    and ord: "sortBy_param qry = Some ''price''" "sortOrder_param qry = Some ''desc''"
  shows "sorted_wrt (\<ge>) (map priceOf (data (paginated sortedResults n limitNum pageNum echoed)))"
proof -
  from items sub have "\<forall>i\<in>set filtered. hasNumericPrice i" by blast
  from sort_price_desc[OF this, of P] obtain ys where
    "sort_js (compareItems P ''price'' ''desc'') filtered = Inr ys"
    "sorted_wrt (\<ge>) (map priceOf ys)" by blast
  with s ord have "sorted_wrt (\<ge>) (map priceOf sortedResults)"
    by (simp add: requestComparator_def orDefault_def)
  then have "sorted_wrt (\<lambda>a b. priceOf a \<ge> priceOf b) sortedResults"
    by (simp add: sorted_wrt_map)
  then have "sorted_wrt (\<lambda>a b. priceOf a \<ge> priceOf b)
               (data (paginated sortedResults n limitNum pageNum echoed))"
    unfolding paginated_fields by (rule sorted_wrt_slice)
  then show ?thesis by (simp add: sorted_wrt_map)
qed

lemma data_name_sorted:
  assumes items: "\<forall>i\<in>set items. hasStringName i"
    and sub: "set filtered \<subseteq> set items"
    and s: "sort_js (requestComparator P qry) filtered = Inr sortedResults"
    and ord: "sortBy_param qry = Some ''name''" "sortOrder_param qry \<in> {None, Some ''asc''}"
  shows "sorted (map foldedNameOf (data (paginated sortedResults n limitNum pageNum echoed)))"
proof -
  from items sub have "\<forall>i\<in>set filtered. hasStringName i" by blast
  from sort_name_asc[OF this, of P] obtain ys where
    "sort_js (compareItems P ''name'' ''asc'') filtered = Inr ys"
    "sorted (map foldedNameOf ys)" by blast
  with s ord have "sorted (map foldedNameOf sortedResults)"
    by (auto simp: requestComparator_def orDefault_def)
  then have "sorted_wrt (\<lambda>a b. foldedNameOf a \<le> foldedNameOf b) sortedResults"
    by (simp add: sorted_map)
  then have "sorted_wrt (\<lambda>a b. foldedNameOf a \<le> foldedNameOf b)
               (data (paginated sortedResults n limitNum pageNum echoed))"
    unfolding paginated_fields by (rule sorted_wrt_slice)
  then show ?thesis by (simp add: sorted_map)
qed

text \<open>
  Claim C8. On a collection whose items all have a number as price and a string as name,
  the sort with \<^verbatim>\<open>sortBy=price\<close>, \<^verbatim>\<open>sortOrder=desc\<close> returns a permutation whose prices are
  non-increasing, and the sort with \<^verbatim>\<open>sortBy=name\<close>, \<^verbatim>\<open>sortOrder=asc\<close> returns a permutation
  whose case-folded names are lexicographically non-decreasing; the pages that the list and
  search routes send for such requests are sorted in the same way.
\<close>

theorem sorting_orders:
  assumes "\<forall>i\<in>set items. hasNumericPrice i \<and> hasStringName i"
  shows "(\<exists>ys. sort_js (compareItems P ''price'' ''desc'') items = Inr ys \<and> mset ys = mset items \<and>
              sorted_wrt (\<ge>) (map priceOf ys)) \<and>
         (\<exists>zs. sort_js (compareItems P ''name'' ''asc'') items = Inr zs \<and> mset zs = mset items \<and>
              sorted (map foldedNameOf zs)) \<and>
         (\<forall>pg. listItems P items qry = Inr pg \<longrightarrow> spec_sortedPage qry pg) \<and>
         (\<forall>pg. advancedSearch P items qry = Inr pg \<longrightarrow> spec_sortedPage qry pg)"
proof -
  from assms have p: "\<forall>i\<in>set items. hasNumericPrice i" and n: "\<forall>i\<in>set items. hasStringName i"
    by simp_all
  have A: "\<exists>ys. sort_js (compareItems P ''price'' ''desc'') items = Inr ys \<and> mset ys = mset items \<and>
              sorted_wrt (\<ge>) (map priceOf ys)"
    by (rule sort_price_desc[OF p])
  have B: "\<exists>zs. sort_js (compareItems P ''name'' ''asc'') items = Inr zs \<and> mset zs = mset items \<and>
              sorted (map foldedNameOf zs)"
    by (rule sort_name_asc[OF n])
  have C: "\<forall>pg. listItems P items qry = Inr pg \<longrightarrow> spec_sortedPage qry pg"
  proof (intro allI impI)
    fix pg assume "listItems P items qry = Inr pg"
    then obtain filtered sortedResults echoed where
      f: "listFiltered items qry = Inr filtered" and
      s: "sort_js (requestComparator P qry) filtered = Inr sortedResults" and
      eq: "pg = paginated sortedResults (length filtered) (limitNumOf qry) (pageNumOf qry) echoed"
      by (rule listItems_page)
    from data_price_sorted[OF p listFiltered_subset[OF f] s]
      data_name_sorted[OF n listFiltered_subset[OF f] s]
    show "spec_sortedPage qry pg"
      unfolding spec_sortedPage_def eq by blast
  qed
  have D: "\<forall>pg. advancedSearch P items qry = Inr pg \<longrightarrow> spec_sortedPage qry pg"
  proof (intro allI impI)
    fix pg assume "advancedSearch P items qry = Inr pg"
    then obtain filtered sortedResults echoed where
      f: "searchFiltered P items qry = Inr filtered" and
      s: "sort_js (requestComparator P qry) filtered = Inr sortedResults" and
      eq: "pg = paginated sortedResults (length filtered) (limitNumOf qry) (pageNumOf qry) echoed"
      by (rule advancedSearch_page)
    from data_price_sorted[OF p searchFiltered_subset[OF f] s]
      data_name_sorted[OF n searchFiltered_subset[OF f] s]
    show "spec_sortedPage qry pg"
      unfolding spec_sortedPage_def eq by blast
  qed
  from A B C D show ?thesis by blast
qed

lemma sort_mockItems_price_desc:
  "sort_js (compareItems examplePlatform ''price'' ''desc'') mockItems =
     Inr [mockItems ! 0, mockItems ! 2, mockItems ! 1]"
  by code_simp

lemma sort_mockItems_name_asc:
  "sort_js (compareItems examplePlatform ''name'' ''asc'') mockItems =
     Inr [mockItems ! 1, mockItems ! 0, mockItems ! 2]"
  by code_simp

theorem sorting_orders_witness:
  "list_all (\<lambda>i. hasNumericPrice i \<and> hasStringName i) mockItems \<and>
   sort_js (compareItems examplePlatform ''price'' ''desc'') mockItems =
     Inr [mockItems ! 0, mockItems ! 2, mockItems ! 1] \<and>
   sorted_wrt (\<ge>) (map priceOf [mockItems ! 0, mockItems ! 2, mockItems ! 1]) \<and>
   map priceOf [mockItems ! 0, mockItems ! 2, mockItems ! 1] = [2499, 999, 399] \<and>
   sort_js (compareItems examplePlatform ''name'' ''asc'') mockItems =
     Inr [mockItems ! 1, mockItems ! 0, mockItems ! 2] \<and>
   sorted (map foldedNameOf [mockItems ! 1, mockItems ! 0, mockItems ! 2]) \<and>
   map foldedNameOf [mockItems ! 1, mockItems ! 0, mockItems ! 2] =
     [''headphones'', ''laptop pro'', ''monitor'']"
proof -
  have h: "\<forall>i\<in>set mockItems. hasNumericPrice i \<and> hasStringName i"
    by (simp add: mockItems_def hasNumericPrice_def hasStringName_def isString_def getProp_def)
  note T = sorting_orders[OF h, of examplePlatform emptyQuery]
  from T obtain ys where
    "sort_js (compareItems examplePlatform ''price'' ''desc'') mockItems = Inr ys"
    "sorted_wrt (\<ge>) (map priceOf ys)" by blast
  with sort_mockItems_price_desc
  have a: "sorted_wrt (\<ge>) (map priceOf [mockItems ! 0, mockItems ! 2, mockItems ! 1])"
    by simp
  from T obtain zs where
    "sort_js (compareItems examplePlatform ''name'' ''asc'') mockItems = Inr zs"
    "sorted (map foldedNameOf zs)" by blast
  with sort_mockItems_name_asc
  have b: "sorted (map foldedNameOf [mockItems ! 1, mockItems ! 0, mockItems ! 2])"
    by simp
  have c: "map priceOf [mockItems ! 0, mockItems ! 2, mockItems ! 1] = [2499, 999, 399]"
    by (simp add: mockItems_def priceOf_def getProp_def)
  have d: "map foldedNameOf [mockItems ! 1, mockItems ! 0, mockItems ! 2] =
     [''headphones'', ''laptop pro'', ''monitor'']"
    by code_simp
  from h have h': "list_all (\<lambda>i. hasNumericPrice i \<and> hasStringName i) mockItems"
    by (simp add: list_all_iff)
  from h' sort_mockItems_price_desc a c sort_mockItems_name_asc b d show ?thesis by blast
qed

section \<open>The categories\<close>

















section \<open>Creating an item and fetching it\<close>

lemma getProp_created:
  "getProp (created now reqBody) key =
     (if key = ''id'' then Some (JNum (of_int now)) else getProp reqBody key)"
  by (simp add: created_def set_prop_def getProp_def update_conv')

lemma postItem_appends:
  assumes "contents d = Content items" and "writable d"
  shows "postItem now reqBody d =
           (Inr \<lparr>status = 201, body = Object (created now reqBody)\<rparr>,
            d\<lparr>contents := Content (items @ [created now reqBody])\<rparr>)"
  using assms by (simp add: postItem_def created_def Let_def)

lemma find_append_last:
  assumes "\<forall>i\<in>set xs. \<not> p i" and "p x"
  shows "find p (xs @ [x]) = Some x"
  using assms by (induction xs) simp_all

lemma getItemById_created:
  assumes "\<forall>i\<in>set items. \<not> strictEquals (getProp i ''id'') (Fin (of_int now))"
    and "parseInt idParam = Fin (of_int now)"
  shows "getItemById (Content (items @ [created now reqBody])) idParam =
           Inr (json_response (Object (created now reqBody)))"
proof -
  have "strictEquals (getProp (created now reqBody) ''id'') (Fin (of_int now))"
    by (simp add: getProp_created strictEquals_def)
  with assms(1)
  have "find (\<lambda>i. strictEquals (getProp i ''id'') (Fin (of_int now)))
          (items @ [created now reqBody]) = Some (created now reqBody)"
    by (rule find_append_last)
  with assms(2) show ?thesis by (simp add: getItemById_def)
qed

text \<open>
  Claim C7, as amended. On a readable and writable file, the creation route answers 201
  with the body to which \<^verbatim>\<open>id = Date.now()\<close> has been set, and writes the collection with
  that one item appended: the existing items stay as they were, in their order. The created
  item has the assigned id and otherwise the properties of the body. When no existing item
  has that id, fetching by the returned id gives the created item.
\<close>

theorem create_then_fetch:
  assumes "contents d = Content items" and "writable d"
  shows "postItem now reqBody d =
           (Inr \<lparr>status = 201, body = Object (created now reqBody)\<rparr>,
            d\<lparr>contents := Content (items @ [created now reqBody])\<rparr>) \<and>
         (\<forall>key. getProp (created now reqBody) key =
            (if key = ''id'' then Some (JNum (of_int now)) else getProp reqBody key)) \<and>
         ((\<forall>i\<in>set items. \<not> strictEquals (getProp i ''id'') (Fin (of_int now))) \<and>
          parseInt idParam = Fin (of_int now) \<longrightarrow>
            getItemById (contents (snd (postItem now reqBody d))) idParam =
              Inr (json_response (Object (created now reqBody))))"
proof (intro conjI allI impI)
  show p: "postItem now reqBody d =
           (Inr \<lparr>status = 201, body = Object (created now reqBody)\<rparr>,
            d\<lparr>contents := Content (items @ [created now reqBody])\<rparr>)"
    by (rule postItem_appends[OF assms])
  fix key show "getProp (created now reqBody) key =
            (if key = ''id'' then Some (JNum (of_int now)) else getProp reqBody key)"
    by (rule getProp_created)
next
  assume "(\<forall>i\<in>set items. \<not> strictEquals (getProp i ''id'') (Fin (of_int now))) \<and>
          parseInt idParam = Fin (of_int now)"
  then have "getItemById (Content (items @ [created now reqBody])) idParam =
           Inr (json_response (Object (created now reqBody)))"
    by (simp add: getItemById_created)
  then show "getItemById (contents (snd (postItem now reqBody d))) idParam =
              Inr (json_response (Object (created now reqBody)))"
    by (simp add: postItem_appends[OF assms])
qed

lemma parseInt_timestamp: "parseInt ''1700000000000'' = Fin (of_int 1700000000000)"
  by (simp add: parseInt_eval)

theorem create_then_fetch_witness:
  "contents \<lparr>contents = Content mockItems, writable = True\<rparr> = Content mockItems \<and>
   writable \<lparr>contents = Content mockItems, writable = True\<rparr> \<and>
   list_all (\<lambda>i. \<not> strictEquals (getProp i ''id'') (Fin (of_int 1700000000000))) mockItems \<and>
   parseInt ''1700000000000'' = Fin (of_int 1700000000000) \<and>
   postItem 1700000000000 newItem \<lparr>contents = Content mockItems, writable = True\<rparr> =
     (Inr \<lparr>status = 201, body = Object (newItem @ [(''id'', JNum 1700000000000)])\<rparr>,
      \<lparr>contents = Content (mockItems @ [newItem @ [(''id'', JNum 1700000000000)]]),
       writable = True\<rparr>) \<and>
   getItemById
     (contents (snd (postItem 1700000000000 newItem \<lparr>contents = Content mockItems, writable = True\<rparr>)))
     ''1700000000000'' =
     Inr (json_response (Object (newItem @ [(''id'', JNum 1700000000000)])))"
proof -
  let ?d = "\<lparr>contents = Content mockItems, writable = True\<rparr>"
  have c: "contents ?d = Content mockItems" and w: "writable ?d" by simp_all
  have h: "\<forall>i\<in>set mockItems. \<not> strictEquals (getProp i ''id'') (Fin (of_int 1700000000000))"
    by (simp add: mockItems_def strictEquals_def getProp_def)
  have cr: "created 1700000000000 newItem = newItem @ [(''id'', JNum 1700000000000)]"
    by (simp add: created_def set_prop_def newItem_def)
  note T = create_then_fetch[OF c w, of 1700000000000 newItem "''1700000000000''"]
  from T have a: "postItem 1700000000000 newItem ?d =
           (Inr \<lparr>status = 201, body = Object (created 1700000000000 newItem)\<rparr>,
            ?d\<lparr>contents := Content (mockItems @ [created 1700000000000 newItem])\<rparr>)"
    by (rule conjunct1)
  from T h parseInt_timestamp
  have b: "getItemById (contents (snd (postItem 1700000000000 newItem ?d))) ''1700000000000'' =
              Inr (json_response (Object (created 1700000000000 newItem)))"
    by blast
  from h have h': "list_all (\<lambda>i. \<not> strictEquals (getProp i ''id'') (Fin (of_int 1700000000000))) mockItems"
    by (simp add: list_all_iff)
  from a have a': "postItem 1700000000000 newItem ?d =
     (Inr \<lparr>status = 201, body = Object (newItem @ [(''id'', JNum 1700000000000)])\<rparr>,
      \<lparr>contents = Content (mockItems @ [newItem @ [(''id'', JNum 1700000000000)]]),
       writable = True\<rparr>)"
    by (simp add: cr)
  from b have b': "getItemById (contents (snd (postItem 1700000000000 newItem ?d))) ''1700000000000'' =
     Inr (json_response (Object (newItem @ [(''id'', JNum 1700000000000)])))"
    by (simp only: cr)
  from c w h' parseInt_timestamp a' b' show ?thesis by blast
qed

text \<open>
  Without the condition on the existing ids the claim fails: \<^verbatim>\<open>find\<close> returns the first
  item with the id. Here the collection holds an item created in the same millisecond, and
  fetching by the returned id gives that item, not the one just created.
\<close>

theorem create_then_fetch_counterexample:
  "postItem 1700000000000 newItem \<lparr>contents = Content [nullItem], writable = True\<rparr> =
     (Inr \<lparr>status = 201, body = Object (newItem @ [(''id'', JNum 1700000000000)])\<rparr>,
      \<lparr>contents = Content [nullItem, newItem @ [(''id'', JNum 1700000000000)]],
       writable = True\<rparr>) \<and>
   getItemById
     (contents (snd (postItem 1700000000000 newItem \<lparr>contents = Content [nullItem], writable = True\<rparr>)))
     ''1700000000000'' = Inr (json_response (Object nullItem)) \<and>
   nullItem \<noteq> newItem @ [(''id'', JNum 1700000000000)]"
proof -
  have a: "postItem 1700000000000 newItem \<lparr>contents = Content [nullItem], writable = True\<rparr> =
     (Inr \<lparr>status = 201, body = Object (newItem @ [(''id'', JNum 1700000000000)])\<rparr>,
      \<lparr>contents = Content [nullItem, newItem @ [(''id'', JNum 1700000000000)]],
       writable = True\<rparr>)"
    by (simp add: postItem_def set_prop_def newItem_def Let_def)
  have "getItemById (Content [nullItem, newItem @ [(''id'', JNum 1700000000000)]]) ''1700000000000'' =
          Inr (json_response (Object nullItem))"
    by (simp add: getItemById_def parseInt_timestamp strictEquals_def getProp_def nullItem_def)
  with a have b: "getItemById
     (contents (snd (postItem 1700000000000 newItem \<lparr>contents = Content [nullItem], writable = True\<rparr>)))
     ''1700000000000'' = Inr (json_response (Object nullItem))"
    by simp
  have c: "nullItem \<noteq> newItem @ [(''id'', JNum 1700000000000)]"
    by (simp add: nullItem_def newItem_def)
  from a b c show ?thesis by blast
qed

section \<open>The stats cache\<close>












section \<open>The length of a page\<close>















end
